theory Spec2Isabelle
  imports Complex_Main "HOL-Library.Signed_Division"
begin

section \<open>The voice tuner: a model of its TypeScript sources\<close>

text \<open>
  The repository is a real-time voice tuner. Its computational core consists of
  \<^item> \<open>services/audioService.ts\<close>: the note mapper \<open>frequencyToNoteDetails\<close> with its helper
    \<open>getFrequencyForNote\<close>, and the autocorrelation pitch detector
    \<open>findFundamentalFrequency\<close>;
  \<^item> the \<open>App\<close> component: the per-frame callback \<open>processAudio\<close>, the freeze timer, the
    one-second display interval, and \<open>startListening\<close> / \<open>stopListening\<close> /
    \<open>handleToggleListening\<close>.

  Numbers. A JavaScript number is an IEEE double. The model computes in \<^typ>\<open>real\<close>:
  rounding, overflow and the infinities are idealised away, and the inputs (samples, sample
  rate, frequencies) are finite reals. The one line whose rounding a property below depends
  on, the smoothing of line 53, is modelled a second time on binary64 values
  (\<open>smooth_double\<close>). The places where the source can produce \<open>NaN\<close> or read
  \<open>undefined\<close> from finite inputs are written out where they occur: the division \<open>0 / 0\<close> in
  the RMS of an empty buffer, an array read outside the index range, and \<open>indexOf\<close> of a name
  that is not in the table. Integers that the source obtains from \<open>Math.floor\<close>,
  \<open>Math.ceil\<close>, \<open>Math.round\<close> and loop counters are \<^typ>\<open>int\<close> or \<^typ>\<open>nat\<close>;
  \<open>Date.now()\<close> is an \<^typ>\<open>int\<close> of milliseconds.
\<close>

subsection \<open>JavaScript primitives used by the sources\<close>

text \<open>An exception that escapes a function is a left injection of this type.\<close>

datatype js_error = RangeError

text \<open>
  \<open>xs[i]\<close> for an array and a number \<open>i\<close>: the element when \<open>i\<close> is an index of the array,
  \<open>undefined\<close> (here \<open>None\<close>) otherwise.
\<close>

definition js_index :: "'a list \<Rightarrow> int \<Rightarrow> 'a option" where
  "js_index xs i = (if 0 \<le> i \<and> i < int (length xs) then Some (xs ! nat i) else None)"

text \<open>\<open>v || 0\<close> on a finite number or \<open>undefined\<close>: \<open>undefined\<close> and \<open>0\<close> both give \<open>0\<close>.\<close>

definition or0 :: "real option \<Rightarrow> real" where
  "or0 v = (case v of None \<Rightarrow> 0 | Some x \<Rightarrow> x)"

text \<open>\<open>xs.indexOf(x)\<close>: the first position of \<open>x\<close>, or \<open>-1\<close>.\<close>

primrec indexOf :: "'a list \<Rightarrow> 'a \<Rightarrow> int" where
  "indexOf [] x = - 1"
| "indexOf (y # ys) x =
     (if y = x then 0 else (let r = indexOf ys x in if r < 0 then - 1 else r + 1))"

text \<open>\<open>Math.round\<close> rounds to the nearest integer, a tie going up.\<close>

definition Math_round :: "real \<Rightarrow> int" where
  "Math_round x = \<lfloor>x + 1 / 2\<rfloor>"

subsection \<open>The note mapper (\<open>audioService.ts\<close>, lines 1 to 40)\<close>

definition A4_FREQUENCY :: real where
  "A4_FREQUENCY = 440"

definition NOTE_NAMES :: "string list" where
  "NOTE_NAMES =
     [''A'', ''A#'', ''B'', ''C'', ''C#'', ''D'', ''D#'', ''E'', ''F'', ''F#'', ''G'', ''G#'']"

text \<open>
  The object returned by \<open>frequencyToNoteDetails\<close>. The note name is \<open>undefined\<close> (\<open>None\<close>)
  when the computed index is not an index of \<open>NOTE_NAMES\<close>.
\<close>

record NoteDetails =
  noteName :: "string option"
  octave :: int
  frequency :: real
  cents :: real

text \<open>
  \<open>getFrequencyForNote\<close> (lines 35 to 40). Its argument may be \<open>undefined\<close>, for which
  \<open>indexOf\<close> answers \<open>-1\<close>; \<open>Math.pow(2, x)\<close> is \<open>2 powr x\<close>.
\<close>

definition getFrequencyForNote :: "string option \<Rightarrow> int \<Rightarrow> real" where
  "getFrequencyForNote name oct =
     (let noteIndex = indexOf (map Some NOTE_NAMES) name;
          noteNumber = noteIndex + oct * 12
      in A4_FREQUENCY * 2 powr (real_of_int (noteNumber - 57) / 12))"

text \<open>
  \<open>frequencyToNoteDetails\<close> (lines 10 to 26). \<open>null\<close> is \<open>None\<close>. The remainder \<open>%\<close> of
  JavaScript takes the sign of the dividend, which is \<open>smod\<close>; \<open>Math.floor\<close> of the quotient
  is the floor of the real quotient. The model is read for frequencies \<open>\<ge> 0\<close>: for a negative
  frequency the source computes with \<open>NaN\<close>, which the model does not represent.
  \<open>Math.log\<close>, \<open>Math.log2\<close> and \<open>Math.pow\<close> are the exact functions here; in the source
  they are approximations in doubles that the language leaves to the implementation.
\<close>

definition frequencyToNoteDetails :: "real \<Rightarrow> NoteDetails option" where
  "frequencyToNoteDetails f =
     (if f = 0 then None
      else
        let noteNumber = 12 * (ln (f / A4_FREQUENCY) / ln 2);
            roundedNoteNumber = Math_round noteNumber + 57;
            noteIndex = roundedNoteNumber smod 12;
            oct = \<lfloor>real_of_int roundedNoteNumber / 12\<rfloor>;
            name = js_index NOTE_NAMES noteIndex;
            targetFrequency = getFrequencyForNote name oct;
            c = 1200 * log 2 (f / targetFrequency)
        in Some \<lparr>noteName = name, octave = oct, frequency = targetFrequency, cents = c\<rparr>)"

subsection \<open>The pitch detector (\<open>audioService.ts\<close>, lines 49 to 143)\<close>

text \<open>
  \<open>findFundamentalFrequency(buffer, sampleRate)\<close> is one function in the source. Each of its
  local variables is a definition here, a function of the two arguments, in the order of the
  source; \<open>findFundamentalFrequency\<close> at the end chains the early returns.

  Lines 50 to 56. \<open>rms\<close> is the square root of the mean square. For an empty buffer the
  source divides \<open>0\<close> by \<open>0\<close>; the result \<open>NaN\<close> compares false with \<open>0.01\<close>, so an empty
  buffer is never taken for silence and the function goes on. \<open>silent\<close> is the test of line 54
  with that case written out.
\<close>

definition rms :: "real list \<Rightarrow> real" where
  "rms buffer = sqrt (foldl (\<lambda>sum val. sum + val * val) 0 buffer / real (length buffer))"

definition silent :: "real list \<Rightarrow> bool" where
  "silent buffer = (buffer \<noteq> [] \<and> rms buffer < 0.01)"

text \<open>Lines 59 to 63: the lag bounds, with \<open>maxFreq = 200\<close> and \<open>minFreq = 80\<close>.\<close>

definition minPeriod :: "real \<Rightarrow> int" where
  "minPeriod sampleRate = \<lfloor>sampleRate / 200\<rfloor>"

definition maxPeriod :: "real \<Rightarrow> int" where
  "maxPeriod sampleRate = \<lceil>sampleRate / 80\<rceil>"

text \<open>
  Line 66: \<open>new Array(searchSize)\<close> throws a \<open>RangeError\<close> unless the length is an integer
  from \<open>0\<close> to \<open>2^32 - 1\<close>. Otherwise the table has \<open>searchSize\<close> entries, all \<open>0\<close>.
\<close>

definition allocFails :: "real \<Rightarrow> bool" where
  "allocFails sampleRate = (maxPeriod sampleRate < 0 \<or> 2 ^ 32 - 1 < maxPeriod sampleRate)"

definition searchSize :: "real \<Rightarrow> nat" where
  "searchSize sampleRate = nat (maxPeriod sampleRate)"

text \<open>
  Lines 67 to 71: the inner loop sums \<open>buffer[i] * buffer[i + lag]\<close> for \<open>i < size - lag\<close>
  (no iteration when \<open>lag \<ge> size\<close>); the outer loop fills the entries from \<open>minPeriod\<close> on,
  the entries below keep their \<open>0\<close>. A negative \<open>minPeriod\<close> occurs only with a negative
  sample rate, where the table is empty or the allocation has failed; the writes of the
  source at negative lags then set properties that are no elements of the array.
\<close>

definition correlation :: "real list \<Rightarrow> nat \<Rightarrow> real" where
  "correlation buffer lag =
     foldl (\<lambda>acc i. acc + buffer ! i * buffer ! (i + lag)) 0 [0..<length buffer - lag]"

definition correlations :: "real list \<Rightarrow> real \<Rightarrow> real list" where
  "correlations buffer sampleRate =
     map (\<lambda>lag. if minPeriod sampleRate \<le> int lag then correlation buffer lag else 0)
       [0..<searchSize sampleRate]"

text \<open>Lines 76 to 80: the \<open>while\<close> loop for \<open>firstDip\<close>, started at \<open>0\<close>, and \<open>searchStart\<close>.\<close>

function firstDipFrom :: "real list \<Rightarrow> nat \<Rightarrow> nat" where
  "firstDipFrom cs d =
     (if d + 1 < length cs \<and> cs ! d > cs ! (d + 1) then firstDipFrom cs (d + 1) else d)"
  by pat_completeness auto
termination
  by (relation "measure (\<lambda>(cs, d). length cs - d)") auto

declare firstDipFrom.simps [simp del]

definition searchStart :: "real list \<Rightarrow> real \<Rightarrow> nat" where
  "searchStart buffer sampleRate =
     nat (max (minPeriod sampleRate) (int (firstDipFrom (correlations buffer sampleRate) 0)))"

text \<open>Lines 83 to 88: the maximum over the search range, starting from \<open>-1\<close>.\<close>

definition maxVal :: "real list \<Rightarrow> real \<Rightarrow> real" where
  "maxVal buffer sampleRate =
     (let cs = correlations buffer sampleRate
      in foldl (\<lambda>m i. if cs ! i > m then cs ! i else m) (- 1)
           [searchStart buffer sampleRate..<searchSize sampleRate])"

text \<open>
  Lines 95 to 105: the first index of the scan that passes the test of line 101, or \<open>-1\<close>.
  The scan stops one short of the table's end, so \<open>correlations[i + 1]\<close> is an element. At
  \<open>i = 0\<close> the read \<open>correlations[i - 1]\<close> is \<open>undefined\<close> and the comparison with it is
  false.
\<close>

definition clarityThreshold :: "real list \<Rightarrow> real \<Rightarrow> real" where
  "clarityThreshold buffer sampleRate = maxVal buffer sampleRate * 0.9"

definition isPeak :: "real list \<Rightarrow> real \<Rightarrow> nat \<Rightarrow> bool" where
  "isPeak cs threshold i =
     (cs ! i > threshold \<and> (0 < i \<and> cs ! i > cs ! (i - 1)) \<and> cs ! i > cs ! (i + 1))"

definition firstPeak :: "real list \<Rightarrow> real \<Rightarrow> int" where
  "firstPeak buffer sampleRate =
     (let cs = correlations buffer sampleRate
      in case find (isPeak cs (clarityThreshold buffer sampleRate))
                [searchStart buffer sampleRate..<searchSize sampleRate - 1] of
           None \<Rightarrow> - 1
         | Some i \<Rightarrow> int i)"

text \<open>
  An index of the scan of lines 100 to 105 that passes the test of line 101 (used to state
  what the loop returns).
\<close>

definition scanPeak :: "real list \<Rightarrow> real \<Rightarrow> nat \<Rightarrow> bool" where
  "scanPeak buffer sampleRate i =
     (let cs = correlations buffer sampleRate
      in searchStart buffer sampleRate \<le> i \<and> i + 1 < searchSize sampleRate \<and> 0 < i \<and>
         cs ! i > cs ! (i - 1) \<and> cs ! i > cs ! (i + 1) \<and>
         cs ! i > 0.9 * maxVal buffer sampleRate)"

text \<open>Lines 108 to 118: the fallback, the first position of the maximum.\<close>

definition fallbackPeak :: "real list \<Rightarrow> real \<Rightarrow> int" where
  "fallbackPeak buffer sampleRate =
     (let cs = correlations buffer sampleRate
      in fst (foldl (\<lambda>(maxPos, fallbackMaxVal) i.
                 if cs ! i > fallbackMaxVal then (int i, cs ! i) else (maxPos, fallbackMaxVal))
               (- 1, - 1) [searchStart buffer sampleRate..<searchSize sampleRate]))"

definition period :: "real list \<Rightarrow> real \<Rightarrow> int" where
  "period buffer sampleRate =
     (if firstPeak buffer sampleRate = - 1 then fallbackPeak buffer sampleRate
      else firstPeak buffer sampleRate)"

text \<open>Lines 126 to 139: the body of the interpolation branch, and its fall-through to line 142.\<close>

definition interpolate :: "real list \<Rightarrow> real \<Rightarrow> int \<Rightarrow> real" where
  "interpolate cs sampleRate T0 =
     (let y_minus_1 = or0 (js_index cs (T0 - 1));
          y_0 = cs ! nat T0;
          y_plus_1 = or0 (js_index cs (T0 + 1));
          pNumerator = y_plus_1 - y_minus_1;
          pDenominator = 2 * (2 * y_0 - y_plus_1 - y_minus_1)
      in if pDenominator \<noteq> 0
         then (let p = pNumerator / pDenominator;
                   corrected_T = real_of_int T0 + p
               in if corrected_T \<le> 0 then 0 else sampleRate / corrected_T)
         else sampleRate / real_of_int T0)"

definition findFundamentalFrequency :: "real list \<Rightarrow> real \<Rightarrow> js_error + real" where
  "findFundamentalFrequency buffer sampleRate =
     (if silent buffer then Inr 0
      else if allocFails sampleRate then Inl RangeError
      else if maxVal buffer sampleRate \<le> 0 then Inr 0
      else
        let T = period buffer sampleRate
        in if T \<le> 0 then Inr 0
           else if T < int (searchSize sampleRate) - 1
           then Inr (interpolate (correlations buffer sampleRate) sampleRate T)
           else Inr (sampleRate / real_of_int T))"

subsection \<open>The session (\<open>App\<close> component)\<close>

definition SMOOTHING_ALPHA :: real where
  "SMOOTHING_ALPHA = 0.055"

definition PAUSE_THRESHOLD_MS :: int where
  "PAUSE_THRESHOLD_MS = 500"

definition FREEZE_ON_SILENCE_MS :: int where
  "FREEZE_ON_SILENCE_MS = 5000"

text \<open>An entry of \<open>frequencyHistoryRef\<close>.\<close>

record reading =
  freq :: real
  timestamp :: int

text \<open>
  The state and the refs of the component that the frame callback, the timer and the
  lifecycle functions read and write (lines 13 to 28):
  \<^item> \<open>isListening\<close>, \<open>detectedFrequency\<close>, \<open>displayedFrequency\<close>, \<open>averageFrequency\<close> are
    React state;
  \<^item> \<open>audioReady\<close> stands for \<open>analyserRef.current\<close> and \<open>audioContextRef.current\<close> both being
    set (they are set and cleared together);
  \<^item> \<open>animationFrameId\<close> is \<open>None\<close> when no frame is requested; \<open>Some c\<close> when one is, the
    callback handed to \<open>requestAnimationFrame\<close> being the \<open>processAudio\<close> closure in which the
    variable \<open>isListening\<close> has the value \<open>c\<close>;
  \<^item> \<open>resetStateTimeoutRef\<close> is \<open>None\<close> for \<open>null\<close>; \<open>Some due\<close> stands for the id of the
    pending timer of line 63, \<open>due\<close> being the instant of the call plus the delay, before
    which the browser does not run the callback.
\<close>

record session =
  isListening :: bool
  detectedFrequency :: real
  displayedFrequency :: real
  averageFrequency :: real
  audioReady :: bool
  animationFrameId :: "bool option"
  smoothedFrequencyRef :: real
  frequencyHistoryRef :: "reading list"
  lastSoundTimestampRef :: int
  resetStateTimeoutRef :: "int option"

text \<open>The initial values of \<open>useState\<close> and \<open>useRef\<close>.\<close>

definition initialSession :: session where
  "initialSession =
     \<lparr>isListening = False, detectedFrequency = 0, displayedFrequency = 0, averageFrequency = 0,
      audioReady = False, animationFrameId = None, smoothedFrequencyRef = 0,
      frequencyHistoryRef = [], lastSoundTimestampRef = 0, resetStateTimeoutRef = None\<rparr>"

text \<open>
  Line 53: the exponential smoothing, in exact arithmetic. The session below is modelled
  with it; \<open>smooth_double\<close> further down is the same line on the doubles of the source.
\<close>

definition smooth :: "real \<Rightarrow> real \<Rightarrow> real" where
  "smooth fundamentalFrequency smoothed =
     SMOOTHING_ALPHA * fundamentalFrequency + (1 - SMOOTHING_ALPHA) * smoothed"

text \<open>
  Line 53 as the source computes it. Every arithmetic operation of JavaScript returns the
  exact result rounded to the nearest binary64 value, a tie going to the even significand;
  the literal \<open>0.055\<close> denotes the nearest binary64 value. \<open>binary64\<close> is this rounding on
  the reals, with the subnormal range (exponent \<open>-1022\<close>, steps of \<open>2^-1074\<close>) and without
  the overflow to infinity, which values of this size do not reach.
\<close>

definition round_half_even :: "real \<Rightarrow> int" where
  "round_half_even y =
     (let n = \<lfloor>y\<rfloor>
      in if y - real_of_int n < 1 / 2 then n
         else if 1 / 2 < y - real_of_int n then n + 1
         else if even n then n else n + 1)"

definition binary64 :: "real \<Rightarrow> real" where
  "binary64 x =
     (if x = 0 then 0
      else let e = max \<lfloor>log 2 \<bar>x\<bar>\<rfloor> (- 1022);
               ulp = 2 powr (real_of_int e - 52)
           in real_of_int (round_half_even (x / ulp)) * ulp)"

definition SMOOTHING_ALPHA_double :: real where
  "SMOOTHING_ALPHA_double = binary64 0.055"

definition smooth_double :: "real \<Rightarrow> real \<Rightarrow> real" where
  "smooth_double fundamentalFrequency smoothed =
     binary64 (binary64 (SMOOTHING_ALPHA_double * fundamentalFrequency)
               + binary64 (binary64 (1 - SMOOTHING_ALPHA_double) * smoothed))"

text \<open>Lines 63 to 68: the callback of the freeze timer.\<close>

definition freezeCallback :: "session \<Rightarrow> session" where
  "freezeCallback s =
     s\<lparr>detectedFrequency := 0, displayedFrequency := 0, smoothedFrequencyRef := 0,
       resetStateTimeoutRef := None\<rparr>"

text \<open>
  \<open>processAudio\<close> (lines 34 to 96) is created by \<open>useCallback\<close> with the dependency
  \<open>isListening\<close>: the variable \<open>isListening\<close> in its body is the value of the render that
  created the closure, the parameter \<open>capturedIsListening\<close> here. The three reads of
  \<open>Date.now()\<close> (lines 57, 58, 73) and the start of the timer (line 63) happen within one
  synchronous run of the callback; the model takes them as the one instant \<open>now\<close>.

  Lines 43 to 70, from the estimate \<open>fundamentalFrequency\<close> that line 41 obtained:
\<close>

definition detectionStep :: "bool \<Rightarrow> real \<Rightarrow> int \<Rightarrow> session \<Rightarrow> session" where
  "detectionStep capturedIsListening fundamentalFrequency now s =
     (let isFrequencyInRange = (fundamentalFrequency \<ge> 80 \<and> fundamentalFrequency \<le> 200)
      in if isFrequencyInRange
         then (let newSmoothedFrequency = smooth fundamentalFrequency (smoothedFrequencyRef s)
               in s\<lparr>resetStateTimeoutRef := None,
                    smoothedFrequencyRef := newSmoothedFrequency,
                    detectedFrequency := newSmoothedFrequency,
                    lastSoundTimestampRef := now,
                    frequencyHistoryRef :=
                      frequencyHistoryRef s @ [\<lparr>freq = newSmoothedFrequency, timestamp = now\<rparr>]\<rparr>)
         else if resetStateTimeoutRef s = None \<and> capturedIsListening
         then s\<lparr>resetStateTimeoutRef := Some (now + FREEZE_ON_SILENCE_MS)\<rparr>
         else s)"

text \<open>Lines 72 to 93: pruning, pause detection and the average.\<close>

definition averageStep :: "int \<Rightarrow> session \<Rightarrow> session" where
  "averageStep now s =
     (let filtered = filter (\<lambda>r. now - timestamp r < 3000) (frequencyHistoryRef s);
          timeSinceLastSound = now - lastSoundTimestampRef s;
          history = (if timeSinceLastSound > PAUSE_THRESHOLD_MS then [] else filtered)
      in s\<lparr>frequencyHistoryRef := history,
           averageFrequency :=
             (if length history > 0
              then foldl (\<lambda>sum r. sum + freq r) 0 history / real (length history)
              else 0)\<rparr>)"

definition processEstimate :: "bool \<Rightarrow> real \<Rightarrow> int \<Rightarrow> session \<Rightarrow> session" where
  "processEstimate capturedIsListening fundamentalFrequency now s =
     averageStep now (detectionStep capturedIsListening fundamentalFrequency now s)"

text \<open>
  The whole callback: the early return of line 35 (which requests no further frame), the
  detector on the buffer that the analyser delivered, lines 43 to 93, and line 95, which
  requests the next frame for the same closure. An exception of the detector leaves the
  callback before any write.
\<close>

definition processAudio ::
  "bool \<Rightarrow> real list \<Rightarrow> real \<Rightarrow> int \<Rightarrow> session \<Rightarrow> js_error + session" where
  "processAudio capturedIsListening buffer sampleRate now s =
     (if \<not> audioReady s then Inr (s\<lparr>animationFrameId := None\<rparr>)
      else case findFundamentalFrequency buffer sampleRate of
             Inl e \<Rightarrow> Inl e
           | Inr fundamentalFrequency \<Rightarrow>
               Inr ((processEstimate capturedIsListening fundamentalFrequency now s)
                      \<lparr>animationFrameId := Some capturedIsListening\<rparr>))"

text \<open>Lines 99 to 111: the callback of the one-second interval, which exists while listening.\<close>

definition displayInterval :: "session \<Rightarrow> session" where
  "displayInterval s =
     (if isListening s \<and> smoothedFrequencyRef s > 1
      then s\<lparr>displayedFrequency := smoothedFrequencyRef s\<rparr> else s)"

text \<open>
  \<open>startListening\<close> (lines 136 to 196) is created by \<open>useCallback\<close> with the dependency
  \<open>processAudio\<close>, so the \<open>processAudio\<close> it hands to \<open>requestAnimationFrame\<close> in line 172 is
  the closure of the same render; \<open>capturedIsListening\<close> is the value of \<open>isListening\<close> in that
  render. \<open>microphoneGranted\<close> tells whether the \<open>try\<close> block succeeds; otherwise the
  \<open>catch\<close> block runs after the resets of lines 138 to 142.
\<close>

definition startListening :: "bool \<Rightarrow> bool \<Rightarrow> session \<Rightarrow> session" where
  "startListening capturedIsListening microphoneGranted s =
     (let s1 = s\<lparr>smoothedFrequencyRef := 0, displayedFrequency := 0, frequencyHistoryRef := [],
                 lastSoundTimestampRef := 0, averageFrequency := 0\<rparr>
      in if microphoneGranted
         then s1\<lparr>audioReady := True, isListening := True,
                 animationFrameId := Some capturedIsListening\<rparr>
         else s1\<lparr>isListening := False\<rparr>)"

text \<open>\<open>stopListening\<close> (lines 198 to 229).\<close>

definition stopListening :: "session \<Rightarrow> session" where
  "stopListening s =
     s\<lparr>animationFrameId := None, audioReady := False, isListening := False,
       detectedFrequency := 0, displayedFrequency := 0, smoothedFrequencyRef := 0,
       frequencyHistoryRef := [], lastSoundTimestampRef := 0, averageFrequency := 0,
       resetStateTimeoutRef := None\<rparr>"

text \<open>
  \<open>handleToggleListening\<close> (lines 251 to 257) is the button's handler, a function of the
  current render. It calls \<open>startListening\<close> in the branch where \<open>isListening\<close> is false, and
  the \<open>startListening\<close> of that render holds the \<open>processAudio\<close> of that render: the closure
  that enters the frame loop has captured the \<open>isListening\<close> that the handler has just
  tested.
\<close>

definition handleToggleListening :: "bool \<Rightarrow> session \<Rightarrow> session" where
  "handleToggleListening microphoneGranted s =
     (if isListening s then stopListening s
      else startListening (isListening s) microphoneGranted s)"

text \<open>
  What can happen to a session: a click on the button; an animation frame, with the buffer
  and the sample rate that the audio graph delivers and the clock; the browser's timer
  service looking at the clock; a tick of the display interval. A frame runs the closure that
  was requested; when the detector throws, no further frame is requested. The timer's
  callback runs only when a timer is pending and due.
\<close>

datatype event =
    Click bool
  | Frame "real list" real int
  | Timeout int
  | Interval

fun step :: "session \<Rightarrow> event \<Rightarrow> session" where
  "step s (Click microphoneGranted) = handleToggleListening microphoneGranted s"
| "step s (Frame buffer sampleRate now) =
     (case animationFrameId s of
        None \<Rightarrow> s
      | Some capturedIsListening \<Rightarrow>
          (case processAudio capturedIsListening buffer sampleRate now s of
             Inl e \<Rightarrow> s\<lparr>animationFrameId := None\<rparr>
           | Inr s' \<Rightarrow> s'))"
| "step s (Timeout now) =
     (case resetStateTimeoutRef s of
        None \<Rightarrow> s
      | Some due \<Rightarrow> if due \<le> now then freezeCallback s else s)"
| "step s Interval = displayInterval s"

definition run :: "event list \<Rightarrow> session \<Rightarrow> session" where
  "run events s = foldl step s events"

subsection \<open>Notions taken from the specification's wording\<close>







text \<open>
  The refinement of a lag \<open>T0\<close>, in the specification's words: parabolic interpolation
  through \<open>R[T0-1]\<close>, \<open>R[T0]\<close>, \<open>R[T0+1]\<close>, a neighbour missing at an edge of the table
  counting as \<open>0\<close>; \<open>T0\<close> itself when the denominator is \<open>0\<close>; the result \<open>0\<close> when the
  corrected lag is not positive.
\<close>

definition spec_refine :: "real list \<Rightarrow> real \<Rightarrow> nat \<Rightarrow> real" where
  "spec_refine R sampleRate T0 =
     (let Rm = (if 0 < T0 \<and> T0 - 1 < length R then R ! (T0 - 1) else 0);
          Rp = (if T0 + 1 < length R then R ! (T0 + 1) else 0);
          den = 2 * (2 * R ! T0 - Rp - Rm)
      in if den = 0 then sampleRate / real T0
         else if real T0 + (Rp - Rm) / den \<le> 0 then 0
         else sampleRate / (real T0 + (Rp - Rm) / den))"

section \<open>Properties of the note mapper\<close>

lemma smod_nonneg: "0 \<le> (a::int) \<Longrightarrow> a smod 12 = a mod 12"
  by (simp add: smod_int_alt_def sgn_if)

lemma floor_div12: "\<lfloor>real_of_int a / 12\<rfloor> = a div 12"
  using floor_divide_of_int_eq [of a 12] by simp

lemma indexOf_NOTE_NAMES:
  "k < 12 \<Longrightarrow> indexOf (map Some NOTE_NAMES) (Some (NOTE_NAMES ! k)) = int k"
proof -
  assume "k < 12"
  then have "k = 0 \<or> k = 1 \<or> k = 2 \<or> k = 3 \<or> k = 4 \<or> k = 5 \<or> k = 6 \<or> k = 7
      \<or> k = 8 \<or> k = 9 \<or> k = 10 \<or> k = 11" by arith
  then show ?thesis
    by (elim disjE) (simp_all add: NOTE_NAMES_def)
qed

lemma js_index_NOTE_NAMES:
  "0 \<le> i \<Longrightarrow> i < 12 \<Longrightarrow> js_index NOTE_NAMES i = Some (NOTE_NAMES ! nat i)"
  by (simp add: js_index_def NOTE_NAMES_def)

lemma note_of_rounded:
  assumes "0 \<le> r"
  shows "getFrequencyForNote (js_index NOTE_NAMES (r smod 12)) \<lfloor>real_of_int r / 12\<rfloor>
         = A4_FREQUENCY * 2 powr (real_of_int (r - 57) / 12)"
proof -
  have m: "r smod 12 = r mod 12" using assms by (rule smod_nonneg)
  have b: "0 \<le> r mod 12" "r mod 12 < 12" by simp_all
  have "nat (r mod 12) < 12" using b by linarith
  then have "indexOf (map Some NOTE_NAMES) (Some (NOTE_NAMES ! nat (r mod 12))) = int (nat (r mod 12))"
    by (rule indexOf_NOTE_NAMES)
  then have i: "indexOf (map Some NOTE_NAMES) (js_index NOTE_NAMES (r mod 12)) = r mod 12"
    using b by (simp add: js_index_NOTE_NAMES)
  have "r mod 12 + (r div 12) * 12 = r" by simp
  then have "real_of_int (r mod 12 + (r div 12) * 12) = real_of_int r" by (rule arg_cong)
  moreover have "real_of_int (r mod 12) + real_of_int (r div 12) * 12
      = real_of_int (r mod 12 + (r div 12) * 12)"
    by (simp only: of_int_add of_int_mult of_int_numeral)
  ultimately have "real_of_int (r mod 12) + real_of_int (r div 12) * 12 = real_of_int r"
    by (rule trans [rotated])
  then show ?thesis
    by (simp add: getFrequencyForNote_def m i floor_div12 Let_def)
qed

lemma cents_of_rounded:
  assumes "0 < f" and "0 \<le> Math_round (12 * (ln (f / A4_FREQUENCY) / ln 2)) + 57"
  shows "\<exists>d. frequencyToNoteDetails f = Some d \<and>
           cents d = 100 * (12 * log 2 (f / 440) - real_of_int (Math_round (12 * log 2 (f / 440))))"
proof -
  let ?x = "12 * log 2 (f / 440)"
  let ?r = "Math_round ?x"
  have x: "12 * (ln (f / A4_FREQUENCY) / ln 2) = ?x" by (simp add: log_def A4_FREQUENCY_def)
  have r: "0 \<le> ?r + 57" using assms(2) by (simp only: x)
  have t: "getFrequencyForNote (js_index NOTE_NAMES ((?r + 57) smod 12)) \<lfloor>real_of_int (?r + 57) / 12\<rfloor>
         = 440 * 2 powr (real_of_int ?r / 12)"
    using note_of_rounded [OF r] by (simp add: A4_FREQUENCY_def)
  have "log 2 (f / (440 * 2 powr (real_of_int ?r / 12))) = log 2 (f / 440) - real_of_int ?r / 12"
  proof -
    have "f / (440 * 2 powr (real_of_int ?r / 12)) = (f / 440) / 2 powr (real_of_int ?r / 12)" by simp
    moreover have "log 2 ((f / 440) / 2 powr (real_of_int ?r / 12))
        = log 2 (f / 440) - log 2 (2 powr (real_of_int ?r / 12))"
      using assms(1) by (intro log_divide_pos) simp_all
    moreover have "log 2 (2 powr (real_of_int ?r / 12)) = real_of_int ?r / 12"
      by (rule log_powr_cancel) simp_all
    ultimately show ?thesis by (simp only:)
  qed
  then have c: "1200 * log 2 (f / (440 * 2 powr (real_of_int ?r / 12))) = 100 * (?x - real_of_int ?r)"
    by simp
  show ?thesis
    using assms(1) unfolding frequencyToNoteDetails_def Let_def x t c by simp
qed

lemma round_dist: "\<bar>x - real_of_int (Math_round x)\<bar> \<le> 1 / 2"
  unfolding Math_round_def by linarith

lemma in_band_rounded_nonneg:
  assumes "80 \<le> f"
  shows "0 \<le> Math_round (12 * log 2 (f / 440)) + 57"
proof -
  have "(1::real) / 8 \<le> f / 440" using assms by simp
  then have "log 2 (1 / 8) \<le> log 2 (f / 440)" by (subst log_le_cancel_iff) simp_all
  moreover have "log 2 (1 / 8) = - 3"
  proof -
    have "(1::real) / 8 = 2 powr (- 3)" by (simp add: powr_minus_divide)
    then have "log 2 (1 / 8) = log 2 (2 powr (- 3))" by (rule arg_cong)
    then show ?thesis by simp
  qed
  ultimately have "- 36 \<le> 12 * log 2 (f / 440)" by simp
  then show ?thesis unfolding Math_round_def by linarith
qed

text \<open>
  In exact arithmetic, for every frequency from 80 to 200 Hz the mapper returns a note whose
  cents deviation is at most 50 in absolute value. This is a fact about the formulas of
  lines 15 to 23, not about their values in the doubles of the source: there
  \<open>Math.log\<close>, \<open>Math.log2\<close> and \<open>Math.pow\<close> are approximations whose rounding decides
  which way a note number next to a half-integer is rounded.
\<close>

lemma cents_within_half_semitone_exact:
  assumes "80 \<le> f" and "f \<le> 200"
  shows "\<exists>d. frequencyToNoteDetails f = Some d \<and> \<bar>cents d\<bar> \<le> 50"
proof -
  have pos: "0 < f" using assms(1) by simp
  have "0 \<le> Math_round (12 * (ln (f / A4_FREQUENCY) / ln 2)) + 57"
    using in_band_rounded_nonneg [OF assms(1)] by (simp add: log_def A4_FREQUENCY_def)
  from cents_of_rounded [OF pos this] obtain d where
    d: "frequencyToNoteDetails f = Some d"
       "cents d = 100 * (12 * log 2 (f / 440) - real_of_int (Math_round (12 * log 2 (f / 440))))"
    by blast
  have "\<bar>cents d\<bar> \<le> 50"
    using round_dist [of "12 * log 2 (f / 440)"] unfolding d(2) abs_mult by simp
  with d(1) show ?thesis by blast
qed


lemma Math_round_of_int: "Math_round (real_of_int n) = n"
  unfolding Math_round_def by linarith

text \<open>
  Claim C7. For every note name of the table and every octave from 0 on (which covers the
  vocal range of 80 to 200 Hz, octaves 2 and 3 of this numbering), the frequency that
  \<open>getFrequencyForNote\<close> reports, fed back into \<open>frequencyToNoteDetails\<close>, yields the same
  name, octave and target frequency and a cents deviation of exactly 0 in real arithmetic.
\<close>

theorem note_round_trip:
  assumes "k < 12" and "0 \<le> oct"
  shows "frequencyToNoteDetails (getFrequencyForNote (Some (NOTE_NAMES ! k)) oct)
         = Some \<lparr>noteName = Some (NOTE_NAMES ! k), octave = oct,
                  frequency = getFrequencyForNote (Some (NOTE_NAMES ! k)) oct, cents = 0\<rparr>"
proof -
  let ?n = "int k + oct * 12"
  let ?tf = "getFrequencyForNote (Some (NOTE_NAMES ! k)) oct"
  have tf: "?tf = A4_FREQUENCY * 2 powr (real_of_int (?n - 57) / 12)"
    by (simp add: getFrequencyForNote_def indexOf_NOTE_NAMES [OF assms(1)])
  have pos: "0 < ?tf" unfolding tf by (simp add: A4_FREQUENCY_def)
  have "ln (?tf / A4_FREQUENCY) / ln 2 = log 2 (2 powr (real_of_int (?n - 57) / 12))"
    unfolding tf by (simp add: log_def A4_FREQUENCY_def)
  also have "\<dots> = real_of_int (?n - 57) / 12" by (rule log_powr_cancel) simp_all
  finally have "ln (?tf / A4_FREQUENCY) / ln 2 = real_of_int (?n - 57) / 12" .
  then have "12 * (ln (?tf / A4_FREQUENCY) / ln 2) = 12 * (real_of_int (?n - 57) / 12)"
    by (rule arg_cong)
  then have "12 * (ln (?tf / A4_FREQUENCY) / ln 2) = real_of_int (?n - 57)"
    by simp
  then have "Math_round (12 * (ln (?tf / A4_FREQUENCY) / ln 2)) = Math_round (real_of_int (?n - 57))"
    by (rule arg_cong)
  then have r: "Math_round (12 * (ln (?tf / A4_FREQUENCY) / ln 2)) + 57 = ?n"
    unfolding Math_round_of_int by linarith
  have n0: "0 \<le> ?n" using assms(2) by simp
  have md: "?n mod 12 = int k" "?n div 12 = oct" using assms(1) by simp_all
  have name: "js_index NOTE_NAMES (?n smod 12) = Some (NOTE_NAMES ! k)"
    using assms(1) by (simp add: smod_nonneg [OF n0] md js_index_NOTE_NAMES)
  have oc: "\<lfloor>real_of_int ?n / 12\<rfloor> = oct" by (simp only: floor_div12 md)
  have "?tf \<noteq> 0" using pos by simp
  then show ?thesis
    unfolding frequencyToNoteDetails_def [of ?tf] Let_def r name oc by simp
qed

text \<open>The theorem at index 9 and octave 2.\<close>

theorem note_round_trip_witness:
  "(9::nat) < 12 \<and> (0::int) \<le> 2 \<and>
   frequencyToNoteDetails (getFrequencyForNote (Some (NOTE_NAMES ! 9)) 2)
     = Some \<lparr>noteName = Some (NOTE_NAMES ! 9), octave = 2,
              frequency = getFrequencyForNote (Some (NOTE_NAMES ! 9)) 2, cents = 0\<rparr>"
  using note_round_trip [of 9 2] by simp


section \<open>Properties of the pitch detector\<close>

lemma sqrt_gate: "sqrt x < 0.01 \<longleftrightarrow> x < 0.0001"
proof -
  have "sqrt x < sqrt 0.0001 \<longleftrightarrow> x < 0.0001" by (rule real_sqrt_less_iff)
  moreover have "sqrt 0.0001 = (0.01::real)"
    by (rule real_sqrt_unique) (simp_all add: power2_eq_square)
  ultimately show ?thesis by (simp only:)
qed

lemma silent_iff:
  "silent buffer \<longleftrightarrow>
     buffer \<noteq> [] \<and> foldl (\<lambda>sum val. sum + val * val) 0 buffer / real (length buffer) < 0.0001"
  unfolding silent_def rms_def sqrt_gate ..

lemmas detector_eval =
  correlations_def searchSize_def maxPeriod_def minPeriod_def correlation_def upt_conv_Cons
  firstDipFrom.simps searchStart_def maxVal_def period_def firstPeak_def fallbackPeak_def
  isPeak_def silent_iff allocFails_def clarityThreshold_def


lemma isPeak_scanPeak:
  "searchStart buffer sampleRate \<le> i \<Longrightarrow> i + 1 < searchSize sampleRate \<Longrightarrow>
   isPeak (correlations buffer sampleRate) (clarityThreshold buffer sampleRate) i
     = scanPeak buffer sampleRate i"
  by (auto simp: isPeak_def scanPeak_def clarityThreshold_def Let_def)


lemma firstPeak_is_clear:
  assumes "firstPeak buffer sampleRate \<noteq> - 1"
  shows "\<exists>i. firstPeak buffer sampleRate = int i \<and> scanPeak buffer sampleRate i \<and>
             (\<forall>j<i. \<not> scanPeak buffer sampleRate j)"
proof -
  let ?P = "isPeak (correlations buffer sampleRate) (clarityThreshold buffer sampleRate)"
  let ?xs = "[searchStart buffer sampleRate..<searchSize sampleRate - 1]"
  obtain i where f: "find ?P ?xs = Some i"
    using assms by (auto simp: firstPeak_def Let_def split: option.splits)
  then obtain k where k: "k < length ?xs" "?P (?xs ! k)" "i = ?xs ! k" "\<forall>j<k. \<not> ?P (?xs ! j)"
    unfolding find_Some_iff by blast
  have i: "i = searchStart buffer sampleRate + k" "i + 1 < searchSize sampleRate"
    using k(1,3) by simp_all
  have c: "scanPeak buffer sampleRate i"
    using k(2,3) i by (simp add: isPeak_scanPeak)
  have "\<not> scanPeak buffer sampleRate j" if "j < i" for j
  proof (cases "searchStart buffer sampleRate \<le> j")
    case True
    then have "j - searchStart buffer sampleRate < k" using that i(1) by simp
    then have "\<not> ?P (?xs ! (j - searchStart buffer sampleRate))" using k(4) by blast
    moreover have "?xs ! (j - searchStart buffer sampleRate) = j"
      using True that i by simp
    ultimately show ?thesis using True that i by (simp add: isPeak_scanPeak)
  next
    case False
    then show ?thesis by (simp add: scanPeak_def Let_def)
  qed
  with f c show ?thesis by (auto simp: firstPeak_def Let_def)
qed



lemma fallback_fold:
  fixes cs :: "real list"
  shows "foldl (\<lambda>(maxPos, fallbackMaxVal) i.
            if cs ! i > fallbackMaxVal then (int i, cs ! i) else (maxPos, fallbackMaxVal))
     (p, v) xs = (p', v') \<Longrightarrow>
   v' = foldl (\<lambda>m i. if cs ! i > m then cs ! i else m) v xs \<and>
   (v < v' \<longrightarrow> (\<exists>i\<in>set xs. p' = int i \<and> cs ! i = v')) \<and>
   (\<not> v < v' \<longrightarrow> p' = p \<and> v' = v)"
proof (induction xs arbitrary: p v)
  case Nil
  then show ?case by auto
next
  case (Cons x xs)
  show ?case
  proof (cases "cs ! x > v")
    case True
    with Cons.prems have "foldl (\<lambda>(maxPos, fallbackMaxVal) i.
            if cs ! i > fallbackMaxVal then (int i, cs ! i) else (maxPos, fallbackMaxVal))
        (int x, cs ! x) xs = (p', v')" by simp
    from Cons.IH [OF this] True show ?thesis by auto
  next
    case False
    with Cons.prems have "foldl (\<lambda>(maxPos, fallbackMaxVal) i.
            if cs ! i > fallbackMaxVal then (int i, cs ! i) else (maxPos, fallbackMaxVal))
        (p, v) xs = (p', v')" by simp
    from Cons.IH [OF this] False show ?thesis by auto
  qed
qed

lemma fallbackPeak_argmax:
  assumes "0 < maxVal buffer sampleRate"
  shows "\<exists>i. fallbackPeak buffer sampleRate = int i \<and> searchStart buffer sampleRate \<le> i \<and>
             i < searchSize sampleRate \<and>
             correlations buffer sampleRate ! i = maxVal buffer sampleRate"
proof -
  let ?cs = "correlations buffer sampleRate"
  let ?xs = "[searchStart buffer sampleRate..<searchSize sampleRate]"
  obtain p' v' where f: "foldl (\<lambda>(maxPos, fallbackMaxVal) i.
            if ?cs ! i > fallbackMaxVal then (int i, ?cs ! i) else (maxPos, fallbackMaxVal))
     (- 1, - 1) ?xs = (p', v')" by (meson surj_pair)
  from fallback_fold [OF f] have
    v0: "v' = foldl (\<lambda>m i. if ?cs ! i > m then ?cs ! i else m) (- 1) ?xs" and
    e: "- 1 < v' \<longrightarrow> (\<exists>i\<in>set ?xs. p' = int i \<and> ?cs ! i = v')"
    by blast+
  have v: "v' = maxVal buffer sampleRate" unfolding v0 by (simp add: maxVal_def Let_def)
  have "- 1 < v'" using assms v by simp
  with e obtain i where "i \<in> set ?xs" "p' = int i" "?cs ! i = v'" by blast
  moreover have "fallbackPeak buffer sampleRate = p'" using f by (simp add: fallbackPeak_def Let_def)
  ultimately show ?thesis using v by auto
qed

lemma period_in_range:
  assumes "0 < maxVal buffer sampleRate"
  shows "\<exists>i. period buffer sampleRate = int i \<and> searchStart buffer sampleRate \<le> i \<and>
             i < searchSize sampleRate \<and> 0 < correlations buffer sampleRate ! i"
proof (cases "firstPeak buffer sampleRate = - 1")
  case True
  then show ?thesis using fallbackPeak_argmax [OF assms] assms by (auto simp: period_def)
next
  case False
  from firstPeak_is_clear [OF this] obtain i where
    i: "firstPeak buffer sampleRate = int i" "scanPeak buffer sampleRate i" by blast
  have "0 < correlations buffer sampleRate ! i"
    using i(2) assms by (simp add: scanPeak_def Let_def)
  moreover have "searchStart buffer sampleRate \<le> i" "i < searchSize sampleRate"
    using i(2) by (simp_all add: scanPeak_def Let_def)
  ultimately show ?thesis using i(1) False by (auto simp: period_def)
qed

lemma if_swap: "(if \<not> c then a else b) = (if c then b else a)"
  by simp

lemma interpolate_interior:
  assumes "0 < T0" and "T0 + 1 < length cs"
  shows "interpolate cs sampleRate (int T0) = spec_refine cs sampleRate T0"
proof -
  have e1: "nat (int T0 - 1) = T0 - Suc 0" using assms(1) by arith
  have e0: "T0 - Suc 0 < length cs" using assms by arith
  have m: "or0 (js_index cs (int T0 - 1))
      = (if 0 < T0 \<and> T0 - 1 < length cs then cs ! (T0 - 1) else 0)"
    using assms e0 by (simp add: js_index_def or0_def e1)
  have e2: "nat (int T0 + 1) = Suc T0" by arith
  have p: "or0 (js_index cs (int T0 + 1)) = (if T0 + 1 < length cs then cs ! (T0 + 1) else 0)"
    using assms by (simp add: js_index_def or0_def e2)
  have z: "cs ! nat (int T0) = cs ! T0" "real_of_int (int T0) = real T0" by simp_all
  show ?thesis
    unfolding interpolate_def spec_refine_def m p z Let_def by (rule if_swap)
qed

lemma length_correlations: "length (correlations buffer sampleRate) = searchSize sampleRate"
  by (simp add: correlations_def)

text \<open>
  Claim C3, as amended. For every buffer that passes the RMS gate, for which the table is
  allocated and the maximum correlation is positive, the chosen lag \<open>T0\<close> is an index of the
  table with positive correlation, and the result is: \<open>0\<close> when \<open>T0 = 0\<close>; the refinement
  in the specification's words when \<open>T0\<close> is positive and not the last index of the table;
  \<open>sampleRate / T0\<close>, unrefined, when \<open>T0\<close> is the last index.
\<close>

theorem parabolic_refinement:
  assumes "\<not> silent buffer" and "\<not> allocFails sampleRate" and "0 < maxVal buffer sampleRate"
  shows "\<exists>T0. period buffer sampleRate = int T0 \<and> T0 < searchSize sampleRate \<and>
           0 < correlations buffer sampleRate ! T0 \<and>
           findFundamentalFrequency buffer sampleRate =
             (if T0 = 0 then Inr 0
              else if T0 + 1 < searchSize sampleRate
              then Inr (spec_refine (correlations buffer sampleRate) sampleRate T0)
              else Inr (sampleRate / real T0))"
proof -
  from period_in_range [OF assms(3)] obtain i where
    i: "period buffer sampleRate = int i" "i < searchSize sampleRate"
       "0 < correlations buffer sampleRate ! i" by blast
  have "findFundamentalFrequency buffer sampleRate =
             (if i = 0 then Inr 0
              else if i + 1 < searchSize sampleRate
              then Inr (spec_refine (correlations buffer sampleRate) sampleRate i)
              else Inr (sampleRate / real i))"
  proof (cases "i = 0")
    case True
    then show ?thesis using assms i(1) by (simp add: findFundamentalFrequency_def)
  next
    case False
    show ?thesis
    proof (cases "i + 1 < searchSize sampleRate")
      case True
      then have "int i < int (searchSize sampleRate) - 1" by linarith
      moreover have "interpolate (correlations buffer sampleRate) sampleRate (int i)
          = spec_refine (correlations buffer sampleRate) sampleRate i"
        using False True by (intro interpolate_interior) (simp_all add: length_correlations)
      ultimately show ?thesis
        using assms i(1) False True by (simp add: findFundamentalFrequency_def)
    next
      case f: False
      then have "\<not> int i < int (searchSize sampleRate) - 1" by linarith
      then show ?thesis
        using assms i(1) False f by (simp add: findFundamentalFrequency_def)
    qed
  qed
  with i show ?thesis by blast
qed

lemma edge_eval:
  "correlations [1,0,0,1/2,1] 400 = [0,0,0,1/2,1]"
  "searchSize 400 = 5"
  "maxVal [1,0,0,1/2,1] 400 = 1"
  "period [1,0,0,1/2,1] 400 = 4"
  by (simp_all add: detector_eval)

text \<open>The theorem on a buffer of five samples at 400 Hz, where the chosen lag is the last index.\<close>

theorem parabolic_refinement_witness:
  "\<not> silent [1,0,0,1/2,1] \<and> \<not> allocFails 400 \<and> 0 < maxVal [1,0,0,1/2,1] 400 \<and>
   period [1,0,0,1/2,1] 400 = 4 \<and> findFundamentalFrequency [1,0,0,1/2,1] 400 = Inr 100"
proof -
  let ?b = "[1,0,0,1/2,1] :: real list"
  have g: "\<not> silent ?b" "\<not> allocFails 400" "0 < maxVal ?b 400"
    by (simp_all add: edge_eval) (simp_all add: silent_iff allocFails_def maxPeriod_def)
  from parabolic_refinement [OF g] obtain T0 where
    "period ?b 400 = int T0"
    "findFundamentalFrequency ?b 400 =
       (if T0 = 0 then Inr 0
        else if T0 + 1 < searchSize 400 then Inr (spec_refine (correlations ?b 400) 400 T0)
        else Inr (400 / real T0))" by blast
  then have "findFundamentalFrequency ?b 400 = Inr 100" by (simp add: edge_eval)
  then show ?thesis using g by (simp add: edge_eval)
qed

text \<open>
  Claim C3 as stated fails: on this buffer the chosen lag 4 is the last index of the table and
  has positive correlation; the source returns \<open>400 / 4\<close>, while the refinement with the
  missing neighbour counted as \<open>0\<close> would give \<open>2400 / 23\<close>.
\<close>

theorem edge_lag_not_refined:
  "\<not> silent [1,0,0,1/2,1] \<and> \<not> allocFails 400 \<and>
   period [1,0,0,1/2,1] 400 = 4 \<and>
   0 < correlations [1,0,0,1/2,1] 400 ! 4 \<and>
   findFundamentalFrequency [1,0,0,1/2,1] 400 = Inr 100 \<and>
   spec_refine (correlations [1,0,0,1/2,1] 400) 400 4 = 2400 / 23"
  by (simp add: findFundamentalFrequency_def edge_eval spec_refine_def)
     (simp add: silent_iff allocFails_def maxPeriod_def)






















lemma maxfold_nonpos:
  fixes cs :: "real list"
  shows "m \<le> 0 \<Longrightarrow> \<forall>i\<in>set xs. cs ! i \<le> 0 \<Longrightarrow>
         foldl (\<lambda>m i. if cs ! i > m then cs ! i else m) m xs \<le> 0"
  by (induction xs arbitrary: m) simp_all

lemma correlations_empty_buffer:
  "i < searchSize sampleRate \<Longrightarrow> correlations [] sampleRate ! i = 0"
  by (simp add: correlations_def correlation_def)

lemma maxVal_empty_buffer: "maxVal [] sampleRate \<le> 0"
  unfolding maxVal_def Let_def
  by (rule maxfold_nonpos) (simp_all add: correlations_empty_buffer)

lemma not_silent_empty: "\<not> silent []"
  by (simp add: silent_def)

lemma empty_buffer_result:
  "findFundamentalFrequency [] sampleRate = (if allocFails sampleRate then Inl RangeError else Inr 0)"
  by (simp add: findFundamentalFrequency_def not_silent_empty maxVal_empty_buffer)

lemma maxPeriod_nonpositive_rate:
  assumes "sampleRate \<le> 0"
  shows "maxPeriod sampleRate \<le> 0" and "maxPeriod sampleRate < 0 \<longleftrightarrow> sampleRate \<le> - 80"
proof -
  show "maxPeriod sampleRate \<le> 0" using assms unfolding maxPeriod_def by (simp add: ceiling_le_iff)
  show "maxPeriod sampleRate < 0 \<longleftrightarrow> sampleRate \<le> - 80"
    unfolding maxPeriod_def by (simp add: ceiling_less_iff)
qed

lemma allocFails_nonpositive_rate:
  "sampleRate \<le> 0 \<Longrightarrow> allocFails sampleRate \<longleftrightarrow> sampleRate \<le> - 80"
  using maxPeriod_nonpositive_rate [of sampleRate] by (auto simp: allocFails_def)

lemma nonpositive_rate_result:
  assumes "sampleRate \<le> 0"
  shows "findFundamentalFrequency buffer sampleRate
         = (if \<not> silent buffer \<and> allocFails sampleRate then Inl RangeError else Inr 0)"
proof -
  have "maxVal buffer sampleRate \<le> 0" if "\<not> allocFails sampleRate"
  proof -
    have "maxPeriod sampleRate = 0"
      using that maxPeriod_nonpositive_rate(1) [OF assms] by (simp add: allocFails_def)
    then show ?thesis by (simp add: maxVal_def searchSize_def)
  qed
  then show ?thesis by (auto simp: findFundamentalFrequency_def)
qed

text \<open>
  Claim C1, as amended. \<open>findFundamentalFrequency\<close> does not validate the frame. For an
  empty buffer or a sample rate that is not positive, the result is the silence value \<open>0\<close>,
  except that a \<open>RangeError\<close> leaves the function when the allocation of the table fails
  and the buffer has not been taken for silence before. An empty buffer is never taken for
  silence; for a sample rate that is not positive the allocation fails exactly from \<open>-80\<close>
  downwards.
\<close>

theorem invalid_frame_outcome:
  assumes "buffer = [] \<or> sampleRate \<le> 0"
  shows "findFundamentalFrequency buffer sampleRate
           = (if \<not> silent buffer \<and> allocFails sampleRate then Inl RangeError else Inr 0) \<and>
         (buffer = [] \<longrightarrow> \<not> silent buffer) \<and>
         (sampleRate \<le> 0 \<longrightarrow> allocFails sampleRate = (sampleRate \<le> - 80))"
  using assms empty_buffer_result [of sampleRate] nonpositive_rate_result [of sampleRate buffer]
    allocFails_nonpositive_rate [of sampleRate] not_silent_empty
  by auto

text \<open>The theorem at the empty buffer and the sample rate \<open>-160\<close>.\<close>

theorem invalid_frame_outcome_witness:
  "(([]::real list) = [] \<or> (- 160::real) \<le> 0) \<and>
   findFundamentalFrequency [] (- 160) = Inl RangeError \<and> \<not> silent [] \<and> allocFails (- 160)"
  using invalid_frame_outcome [of "[]" "- 160"] by simp

text \<open>
  Claim C1 as stated fails: an empty buffer at 44100 Hz, and a buffer at the sample rate
  \<open>0\<close>, are answered with the silence value \<open>0\<close>, not with an error.
\<close>

theorem invalid_frame_returns_silence:
  "findFundamentalFrequency [] 44100 = Inr 0 \<and> findFundamentalFrequency [1] 0 = Inr 0"
proof
  have "\<not> allocFails 44100" by (simp add: allocFails_def maxPeriod_def)
  then show "findFundamentalFrequency [] 44100 = Inr 0" by (simp add: empty_buffer_result)
  have "\<not> allocFails 0" by (simp add: allocFails_def maxPeriod_def)
  then show "findFundamentalFrequency [1] 0 = Inr 0" by (simp add: nonpositive_rate_result)
qed


section \<open>Properties of the session\<close>

lemma smooth_diff: "smooth f s - f = (1 - SMOOTHING_ALPHA) * (s - f)"
  by (simp add: smooth_def algebra_simps)

lemma round_half_even_error: "\<bar>real_of_int (round_half_even y) - y\<bar> \<le> 1 / 2"
  unfolding round_half_even_def Let_def by (auto; linarith)

lemma round_half_even_nonneg: "0 \<le> y \<Longrightarrow> 0 \<le> round_half_even y"
  unfolding round_half_even_def Let_def by (auto; linarith?)

lemma binade:
  assumes "2 powr real_of_int e \<le> \<bar>x\<bar>" and "\<bar>x\<bar> < 2 powr (real_of_int e + 1)"
  shows "\<lfloor>log 2 \<bar>x\<bar>\<rfloor> = e"
proof -
  have pos: "0 < \<bar>x\<bar>" using assms(1) by (smt (verit) powr_gt_zero)
  have "real_of_int e \<le> log 2 \<bar>x\<bar>" using assms(1) pos by (simp add: le_log_iff)
  moreover have "log 2 \<bar>x\<bar> < real_of_int e + 1" using assms(2) pos by (simp add: log_less_iff)
  ultimately show ?thesis by linarith
qed

lemma binary64_in_binade:
  assumes "2 powr real_of_int e \<le> \<bar>x\<bar>" and "\<bar>x\<bar> < 2 powr (real_of_int e + 1)" and "- 1022 \<le> e"
  shows "binary64 x = real_of_int (round_half_even (x / 2 powr (real_of_int e - 52)))
                      * 2 powr (real_of_int e - 52)"
proof -
  have "x \<noteq> 0" using assms(1) by (smt (verit) powr_gt_zero)
  then show ?thesis
    unfolding binary64_def Let_def binade [OF assms(1,2)] using assms(3) by (simp add: max_def)
qed

lemma binary64_error:
  assumes "\<bar>x\<bar> < 2 powr real_of_int k" and "- 1021 \<le> k"
  shows "\<bar>binary64 x - x\<bar> \<le> 2 powr (real_of_int k - 54)"
proof (cases "x = 0")
  case True
  then show ?thesis by (simp add: binary64_def)
next
  case False
  define e where "e = max \<lfloor>log 2 \<bar>x\<bar>\<rfloor> (- 1022)"
  define ulp where "ulp = 2 powr (real_of_int e - 52)"
  have ulp: "0 < ulp" by (simp add: ulp_def)
  have "log 2 \<bar>x\<bar> < real_of_int k" using assms(1) False by (simp add: log_less_iff)
  then have "\<lfloor>log 2 \<bar>x\<bar>\<rfloor> \<le> k - 1" by linarith
  then have "e \<le> k - 1" using assms(2) by (simp add: e_def)
  then have "real_of_int e - 52 \<le> real_of_int k - 53" by simp
  then have u: "ulp \<le> 2 powr (real_of_int k - 53)" unfolding ulp_def by (simp add: powr_mono)
  have b: "binary64 x = real_of_int (round_half_even (x / ulp)) * ulp"
    using False by (simp add: binary64_def Let_def e_def ulp_def)
  have "binary64 x - x = (real_of_int (round_half_even (x / ulp)) - x / ulp) * ulp"
    unfolding b using ulp by (simp add: algebra_simps)
  then have "\<bar>binary64 x - x\<bar> = \<bar>real_of_int (round_half_even (x / ulp)) - x / ulp\<bar> * ulp"
    using ulp by (simp add: abs_mult)
  also have "\<dots> \<le> (1 / 2) * ulp"
    using round_half_even_error [of "x / ulp"] ulp by (intro mult_right_mono) simp_all
  also have "\<dots> \<le> (1 / 2) * 2 powr (real_of_int k - 53)" using u by simp
  also have "\<dots> = 2 powr (real_of_int k - 54)"
  proof -
    have "2 powr (real_of_int k - 53) = 2 powr (real_of_int k - 54) * 2 powr 1"
      by (simp only: powr_add [symmetric]) simp
    then show ?thesis by simp
  qed
  finally show ?thesis .
qed

lemma binary64_nonneg: "0 \<le> x \<Longrightarrow> 0 \<le> binary64 x"
  unfolding binary64_def Let_def
  by (auto intro!: mult_nonneg_nonneg round_half_even_nonneg divide_nonneg_pos)


lemma binary64_error_less_pow:
  assumes "\<bar>x\<bar> < 2 ^ m"
  shows "\<bar>binary64 x - x\<bar> \<le> 2 ^ m / 2 ^ 54"
proof -
  have "\<bar>x\<bar> < 2 powr real_of_int (int m)" using assms by (simp add: powr_realpow)
  then have "\<bar>binary64 x - x\<bar> \<le> 2 powr (real_of_int (int m) - 54)"
    by (rule binary64_error) simp
  also have "\<dots> = 2 powr real m / 2 powr 54" by (simp add: powr_diff)
  also have "\<dots> = 2 ^ m / 2 ^ 54" by (simp add: powr_realpow)
  finally show ?thesis .
qed

lemma binary64_error_less_inverse_pow:
  assumes "\<bar>x\<bar> < 1 / 2 ^ m" and "m \<le> 1021"
  shows "\<bar>binary64 x - x\<bar> \<le> 1 / 2 ^ (m + 54)"
proof -
  have "\<bar>x\<bar> < 2 powr real_of_int (- int m)"
    using assms(1) by (simp add: powr_minus powr_realpow inverse_eq_divide)
  then have "\<bar>binary64 x - x\<bar> \<le> 2 powr (real_of_int (- int m) - 54)"
    by (rule binary64_error) (use assms(2) in simp)
  also have "\<dots> = 2 powr (- real (m + 54))" by simp
  also have "\<dots> = 1 / 2 powr real (m + 54)" by (rule powr_minus_divide)
  also have "\<dots> = 1 / 2 ^ (m + 54)" by (subst powr_realpow) simp_all
  finally show ?thesis .
qed

lemma alpha_double_close: "\<bar>SMOOTHING_ALPHA_double - 0.055\<bar> \<le> 1 / 2 ^ 58"
  unfolding SMOOTHING_ALPHA_double_def
  using binary64_error_less_inverse_pow [of "0.055" 4] by simp

lemma one_minus_alpha_double_close:
  "\<bar>binary64 (1 - SMOOTHING_ALPHA_double) - 0.945\<bar> \<le> 1 / 2 ^ 58 + 1 / 2 ^ 54"
proof -
  have a: "\<bar>SMOOTHING_ALPHA_double - 0.055\<bar> \<le> 1 / 2 ^ 58" by (rule alpha_double_close)
  then have "\<bar>1 - SMOOTHING_ALPHA_double\<bar> < 2 ^ 0" by (simp add: abs_if split: if_splits)
  from binary64_error_less_pow [OF this]
  have "\<bar>binary64 (1 - SMOOTHING_ALPHA_double) - (1 - SMOOTHING_ALPHA_double)\<bar> \<le> 1 / 2 ^ 54"
    by simp
  with a show ?thesis by (simp add: abs_if split: if_splits)
qed


lemma scaled_close:
  fixes a c e f m :: real
  assumes "\<bar>a - c\<bar> \<le> e" and "0 \<le> f" and "f \<le> m"
  shows "\<bar>a * f - c * f\<bar> \<le> e * m"
proof -
  have "\<bar>a * f - c * f\<bar> = \<bar>a - c\<bar> * f"
    using assms(2) by (simp add: abs_mult left_diff_distrib [symmetric])
  also have "\<dots> \<le> e * m"
    using assms by (intro mult_mono) simp_all
  finally show ?thesis .
qed

lemma smooth_double_close:
  assumes "0 \<le> f" and "f \<le> 200" and "0 \<le> s" and "s \<le> 250"
  shows "\<bar>smooth_double f s - smooth f s\<bar> \<le> 1 / 2 ^ 44" and "0 \<le> smooth_double f s"
proof -
  define a where "a = SMOOTHING_ALPHA_double"
  define b where "b = binary64 (1 - a)"
  define p1 where "p1 = binary64 (a * f)"
  define p2 where "p2 = binary64 (b * s)"
  have a: "\<bar>a - 0.055\<bar> \<le> 1 / 2 ^ 58" unfolding a_def by (rule alpha_double_close)
  have b: "\<bar>b - 0.945\<bar> \<le> 1 / 2 ^ 58 + 1 / 2 ^ 54"
    unfolding b_def a_def by (rule one_minus_alpha_double_close)
  have a_rng: "0 \<le> a" "a \<le> 0.056" using a by (simp_all add: abs_if split: if_splits)
  have b_rng: "0 \<le> b" "b \<le> 0.946" using b by (simp_all add: abs_if split: if_splits)
  have af: "\<bar>a * f - 0.055 * f\<bar> \<le> 1 / 2 ^ 58 * 200"
    using a assms(1,2) by (rule scaled_close)
  have bs: "\<bar>b * s - 0.945 * s\<bar> \<le> (1 / 2 ^ 58 + 1 / 2 ^ 54) * 250"
    using b assms(3,4) by (rule scaled_close)
  have af0: "0 \<le> a * f" using a_rng(1) assms(1) by simp
  have bs0: "0 \<le> b * s" using b_rng(1) assms(3) by simp
  have af_le: "a * f \<le> 0.056 * 200" using a_rng assms(1,2) by (intro mult_mono) simp_all
  have bs_le: "b * s \<le> 0.946 * 250" using b_rng assms(3,4) by (intro mult_mono) simp_all
  have "\<bar>a * f\<bar> < 2 ^ 4" using af0 af_le by simp
  from binary64_error_less_pow [OF this]
  have p1: "\<bar>p1 - a * f\<bar> \<le> 2 ^ 4 / 2 ^ 54" unfolding p1_def .
  have "\<bar>b * s\<bar> < 2 ^ 8" using bs0 bs_le by simp
  from binary64_error_less_pow [OF this]
  have p2: "\<bar>p2 - b * s\<bar> \<le> 2 ^ 8 / 2 ^ 54" unfolding p2_def .
  have p10: "0 \<le> p1" unfolding p1_def using af0 by (rule binary64_nonneg)
  have p20: "0 \<le> p2" unfolding p2_def using bs0 by (rule binary64_nonneg)
  have p1_le: "p1 \<le> 12" using p1 af_le by (simp add: abs_if split: if_splits)
  have p2_le: "p2 \<le> 237" using p2 bs_le by (simp add: abs_if split: if_splits)
  have "\<bar>p1 + p2\<bar> < 2 ^ 8" using p10 p20 p1_le p2_le by simp
  from binary64_error_less_pow [OF this]
  have sum: "\<bar>binary64 (p1 + p2) - (p1 + p2)\<bar> \<le> 2 ^ 8 / 2 ^ 54" .
  have sd: "smooth_double f s = binary64 (p1 + p2)"
    by (simp add: smooth_double_def p1_def p2_def b_def a_def)
  have ex: "smooth f s = 0.055 * f + 0.945 * s" by (simp add: smooth_def SMOOTHING_ALPHA_def)
  show "\<bar>smooth_double f s - smooth f s\<bar> \<le> 1 / 2 ^ 44"
    unfolding sd ex using sum p1 p2 af bs by (simp add: abs_if split: if_splits)
  show "0 \<le> smooth_double f s"
    unfolding sd using p10 p20 by (intro binary64_nonneg) simp
qed


lemma binary64_at:
  assumes "2 powr real_of_int e \<le> \<bar>x\<bar>" and "\<bar>x\<bar> < 2 powr (real_of_int e + 1)"
    and "- 1022 \<le> e" and "e \<le> 52"
  shows "binary64 x = real_of_int (round_half_even (x * 2 ^ nat (52 - e))) / 2 ^ nat (52 - e)"
proof -
  have "2 powr (real_of_int e - 52) = 2 powr (- real (nat (52 - e)))" using assms(4) by simp
  also have "\<dots> = 1 / 2 powr real (nat (52 - e))" by (rule powr_minus_divide)
  also have "\<dots> = 1 / 2 ^ nat (52 - e)" by (subst powr_realpow) simp_all
  finally have u: "2 powr (real_of_int e - 52) = 1 / 2 ^ nat (52 - e)" .
  show ?thesis unfolding binary64_in_binade [OF assms(1,2,3)] u by simp
qed

lemma alpha_double_value: "SMOOTHING_ALPHA_double = 7926335344172073 / 2 ^ 57"
  unfolding SMOOTHING_ALPHA_double_def
  by (subst binary64_at [where e = "- 5"]) (simp_all add: round_half_even_def powr_minus_divide)

lemma one_minus_alpha_double_value:
  "binary64 (1 - SMOOTHING_ALPHA_double) = 8511803295730237 / 2 ^ 53"
  unfolding alpha_double_value
  by (subst binary64_at [where e = "- 1"]) (simp_all add: round_half_even_def)

lemma smooth_double_stall:
  "smooth_double 100 (100 - 15 / 2 ^ 46) = 100 - 15 / 2 ^ 46"
proof -
  have p1: "binary64 (SMOOTHING_ALPHA_double * 100) = 11 / 2"
    unfolding alpha_double_value
    by (subst binary64_at [where e = 2]) (simp_all add: round_half_even_def)
  have p2: "binary64 (binary64 (1 - SMOOTHING_ALPHA_double) * (100 - 15 / 2 ^ 46))
      = 6649846324789233 / 2 ^ 46"
    unfolding one_minus_alpha_double_value
    by (subst binary64_at [where e = 6]) (simp_all add: round_half_even_def)
  have "binary64 (11 / 2 + 6649846324789233 / 2 ^ 46) = 7036874417766385 / 2 ^ 46"
    by (subst binary64_at [where e = 6]) (simp_all add: round_half_even_def)
  then show ?thesis unfolding smooth_double_def p1 p2 by simp
qed


lemma smooth_double_step:
  assumes "0 \<le> f" and "f \<le> 200" and "0 \<le> s" and "s \<le> 250"
  shows "\<bar>smooth_double f s - f\<bar> \<le> 0.945 * \<bar>s - f\<bar> + 1 / 2 ^ 44"
    and "smooth_double f s \<le> 250"
proof -
  have c: "\<bar>smooth_double f s - smooth f s\<bar> \<le> 1 / 2 ^ 44"
    using assms by (rule smooth_double_close)
  have d: "smooth f s - f = 0.945 * (s - f)"
    using smooth_diff [of f s] by (simp add: SMOOTHING_ALPHA_def)
  have "\<bar>smooth_double f s - f\<bar> \<le> \<bar>smooth f s - f\<bar> + \<bar>smooth_double f s - smooth f s\<bar>"
    by simp
  also have "\<bar>smooth f s - f\<bar> = 0.945 * \<bar>s - f\<bar>" unfolding d abs_mult by simp
  finally show "\<bar>smooth_double f s - f\<bar> \<le> 0.945 * \<bar>s - f\<bar> + 1 / 2 ^ 44"
    using c by simp
  have "smooth f s \<le> 0.055 * 200 + 0.945 * 250"
    using assms(2,4) by (simp add: smooth_def SMOOTHING_ALPHA_def)
  then show "smooth_double f s \<le> 250" using c by (simp add: abs_if split: if_splits)
qed

lemma smooth_double_iterate:
  assumes "0 \<le> f" and "f \<le> 200" and "0 \<le> s" and "s \<le> 250"
  shows "0 \<le> (smooth_double f ^^ n) s \<and> (smooth_double f ^^ n) s \<le> 250 \<and>
         \<bar>(smooth_double f ^^ n) s - f\<bar> \<le> 0.945 ^ n * \<bar>s - f\<bar> + 1 / 2 ^ 39"
proof (induction n)
  case 0
  show ?case using assms(3,4) by simp
next
  case (Suc n)
  let ?t = "(smooth_double f ^^ n) s"
  have t: "0 \<le> ?t" "?t \<le> 250" and d: "\<bar>?t - f\<bar> \<le> 0.945 ^ n * \<bar>s - f\<bar> + 1 / 2 ^ 39"
    using Suc.IH by simp_all
  have "\<bar>smooth_double f ?t - f\<bar> \<le> 0.945 * \<bar>?t - f\<bar> + 1 / 2 ^ 44"
    using assms(1,2) t by (rule smooth_double_step)
  also have "\<dots> \<le> 0.945 * (0.945 ^ n * \<bar>s - f\<bar> + 1 / 2 ^ 39) + 1 / 2 ^ 44"
    using d by simp
  also have "\<dots> \<le> 0.945 ^ Suc n * \<bar>s - f\<bar> + 1 / 2 ^ 39" by (simp add: algebra_simps)
  finally have "\<bar>(smooth_double f ^^ Suc n) s - f\<bar> \<le> 0.945 ^ Suc n * \<bar>s - f\<bar> + 1 / 2 ^ 39"
    by simp
  moreover have "0 \<le> (smooth_double f ^^ Suc n) s"
    using smooth_double_close(2) [OF assms(1,2) t] by simp
  moreover have "(smooth_double f ^^ Suc n) s \<le> 250"
    using smooth_double_step(2) [OF assms(1,2) t] by simp
  ultimately show ?case by blast
qed

text \<open>
  Claim C8, as amended. On the doubles of line 53, for every estimate \<open>f\<close> from 0 to 200
  and every smoother state \<open>s\<close> from 0 to 250: the update lands within \<open>2^-44\<close> of
  \<open>0.055 * f + 0.945 * s\<close>, so the new distance to \<open>f\<close> is at most \<open>0.945\<close> times the old
  one plus \<open>2^-44\<close>. The distance shrinks strictly as long as it exceeds \<open>2^-39\<close>, and the
  state does not cross \<open>f\<close> as long as it is at least \<open>2^-43\<close> away from it. Under repeated
  updates the state stays between 0 and 250, and after \<open>n\<close> updates its distance to \<open>f\<close> is
  at most \<open>0.945 ^ n\<close> times the initial one plus \<open>2^-39\<close>.
\<close>

theorem smoother_contracts:
  assumes "0 \<le> f" and "f \<le> 200" and "0 \<le> s" and "s \<le> 250"
  shows "\<bar>smooth_double f s - (0.055 * f + 0.945 * s)\<bar> \<le> 1 / 2 ^ 44 \<and>
         \<bar>smooth_double f s - f\<bar> \<le> 0.945 * \<bar>s - f\<bar> + 1 / 2 ^ 44 \<and>
         (1 / 2 ^ 39 < \<bar>s - f\<bar> \<longrightarrow> \<bar>smooth_double f s - f\<bar> < \<bar>s - f\<bar>) \<and>
         (s + 1 / 2 ^ 43 \<le> f \<longrightarrow> smooth_double f s < f) \<and>
         (f + 1 / 2 ^ 43 \<le> s \<longrightarrow> f < smooth_double f s) \<and>
         0 \<le> (smooth_double f ^^ n) s \<and> (smooth_double f ^^ n) s \<le> 250 \<and>
         \<bar>(smooth_double f ^^ n) s - f\<bar> \<le> 0.945 ^ n * \<bar>s - f\<bar> + 1 / 2 ^ 39"
proof -
  have c: "\<bar>smooth_double f s - smooth f s\<bar> \<le> 1 / 2 ^ 44"
    using assms by (rule smooth_double_close)
  have e: "smooth f s = 0.055 * f + 0.945 * s" by (simp add: smooth_def SMOOTHING_ALPHA_def)
  have st: "\<bar>smooth_double f s - f\<bar> \<le> 0.945 * \<bar>s - f\<bar> + 1 / 2 ^ 44"
    using assms by (rule smooth_double_step)
  have "1 / 2 ^ 39 < \<bar>s - f\<bar> \<longrightarrow> \<bar>smooth_double f s - f\<bar> < \<bar>s - f\<bar>"
    using st by simp
  moreover have "s + 1 / 2 ^ 43 \<le> f \<longrightarrow> smooth_double f s < f"
    using c unfolding e by (simp add: abs_if split: if_splits)
  moreover have "f + 1 / 2 ^ 43 \<le> s \<longrightarrow> f < smooth_double f s"
    using c unfolding e by (simp add: abs_if split: if_splits)
  ultimately show ?thesis
    using c st smooth_double_iterate [OF assms, of n] unfolding e by blast
qed

text \<open>The theorem at the estimate 100 from the state 0.\<close>

theorem smoother_contracts_witness:
  "(0::real) \<le> 100 \<and> (100::real) \<le> 200 \<and> (0::real) \<le> 0 \<and> (0::real) \<le> 250 \<and>
   1 / 2 ^ 39 < \<bar>(0::real) - 100\<bar> \<and> (0::real) + 1 / 2 ^ 43 \<le> 100 \<and>
   \<bar>smooth_double 100 0 - 100\<bar> < \<bar>0 - 100\<bar> \<and> smooth_double 100 0 < 100 \<and>
   \<bar>smooth_double 100 0 - 5.5\<bar> \<le> 1 / 2 ^ 44"
proof -
  have h: "(0::real) \<le> 100" "(100::real) \<le> 200" "(0::real) \<le> 0" "(0::real) \<le> 250"
    by simp_all
  have g: "1 / 2 ^ 39 < \<bar>(0::real) - 100\<bar>" "(0::real) + 1 / 2 ^ 43 \<le> 100" by simp_all
  note t = smoother_contracts [OF h, of 0]
  have "\<bar>smooth_double 100 0 - 100\<bar> < \<bar>0 - 100\<bar>" using t g(1) by blast
  moreover have "smooth_double 100 0 < 100" using t g(2) by blast
  moreover have "\<bar>smooth_double 100 0 - (0.055 * 100 + 0.945 * 0)\<bar> \<le> 1 / 2 ^ 44" using t by blast
  then have "\<bar>smooth_double 100 0 - 5.5\<bar> \<le> 1 / 2 ^ 44" by simp
  ultimately show ?thesis using g by simp
qed

text \<open>
  Claim C8 as stated fails. At the estimate 100 and the state \<open>100 - 15 * 2^-46\<close> (a
  binary64 value, printed \<open>99.99999999999979\<close>) line 53 returns the state unchanged: the
  distance does not shrink, and repeated updates never bring it to \<open>0\<close>.
\<close>

theorem smoother_stalls:
  "(0::real) < 100 \<and> (0::real) \<le> 100 - 15 / 2 ^ 46 \<and> 100 - 15 / 2 ^ 46 \<noteq> (100::real) \<and>
   smooth_double 100 (100 - 15 / 2 ^ 46) = 100 - 15 / 2 ^ 46 \<and>
   \<not> \<bar>smooth_double 100 (100 - 15 / 2 ^ 46) - 100\<bar> < \<bar>(100 - 15 / 2 ^ 46) - 100\<bar>"
  unfolding smooth_double_stall by simp

lemma history_processEstimate:
  "frequencyHistoryRef (processEstimate c f now s) =
     (if 80 \<le> f \<and> f \<le> 200
      then filter (\<lambda>r. now - timestamp r < 3000) (frequencyHistoryRef s)
             @ [\<lparr>freq = smooth f (smoothedFrequencyRef s), timestamp = now\<rparr>]
      else if now - lastSoundTimestampRef s > 500 then []
      else filter (\<lambda>r. now - timestamp r < 3000) (frequencyHistoryRef s))"
  by (simp add: processEstimate_def averageStep_def detectionStep_def Let_def
      PAUSE_THRESHOLD_MS_def)

lemma history_in_band:
  "80 \<le> f \<and> f \<le> 200 \<Longrightarrow>
   frequencyHistoryRef (processEstimate c f now s) =
     filter (\<lambda>r. now - timestamp r < 3000) (frequencyHistoryRef s)
       @ [\<lparr>freq = smooth f (smoothedFrequencyRef s), timestamp = now\<rparr>]"
  by (simp add: history_processEstimate)

lemma lastSound_processEstimate:
  "lastSoundTimestampRef (processEstimate c f now s) =
     (if 80 \<le> f \<and> f \<le> 200 then now else lastSoundTimestampRef s)"
  by (simp add: processEstimate_def averageStep_def detectionStep_def Let_def)

lemma smoothed_processEstimate:
  "smoothedFrequencyRef (processEstimate c f now s) =
     (if 80 \<le> f \<and> f \<le> 200 then smooth f (smoothedFrequencyRef s) else smoothedFrequencyRef s)"
  by (simp add: processEstimate_def averageStep_def detectionStep_def Let_def)

lemma detected_processEstimate:
  "detectedFrequency (processEstimate c f now s) =
     (if 80 \<le> f \<and> f \<le> 200 then smooth f (smoothedFrequencyRef s) else detectedFrequency s)"
  by (simp add: processEstimate_def averageStep_def detectionStep_def Let_def)

lemma average_processEstimate:
  "averageFrequency (processEstimate c f now s) =
     (let h = frequencyHistoryRef (processEstimate c f now s)
      in if h = [] then 0 else foldl (\<lambda>sum r. sum + freq r) 0 h / real (length h))"
  by (simp add: processEstimate_def averageStep_def Let_def)

text \<open>
  Claim C10. When the smoother state is \<open>0\<close>, a tick with an estimate \<open>f\<close> from 80 to 200 Hz
  sets the smoothed value to exactly \<open>0.055 * f\<close>, which lies between 4.4 and 11 Hz; the
  reading with this value and the time of the tick is the last entry of the history after
  the tick, and the average is the mean over that history. Session start, session stop and
  the callback of the freeze timer each leave the smoother state at \<open>0\<close>.
\<close>

theorem first_estimate_after_reset:
  assumes "80 \<le> f" and "f \<le> 200" and "smoothedFrequencyRef s = 0"
  shows "smoothedFrequencyRef (processEstimate c f now s) = 0.055 * f \<and>
         4.4 \<le> smoothedFrequencyRef (processEstimate c f now s) \<and>
         smoothedFrequencyRef (processEstimate c f now s) \<le> 11 \<and>
         frequencyHistoryRef (processEstimate c f now s) \<noteq> [] \<and>
         last (frequencyHistoryRef (processEstimate c f now s))
           = \<lparr>freq = 0.055 * f, timestamp = now\<rparr> \<and>
         averageFrequency (processEstimate c f now s)
           = foldl (\<lambda>sum r. sum + freq r) 0 (frequencyHistoryRef (processEstimate c f now s))
             / real (length (frequencyHistoryRef (processEstimate c f now s))) \<and>
         smoothedFrequencyRef (startListening c granted s0) = 0 \<and>
         smoothedFrequencyRef (stopListening s0) = 0 \<and>
         smoothedFrequencyRef (freezeCallback s0) = 0"
proof -
  have sm: "smooth f 0 = 0.055 * f" by (simp add: smooth_def SMOOTHING_ALPHA_def)
  have h: "frequencyHistoryRef (processEstimate c f now s)
      = filter (\<lambda>r. now - timestamp r < 3000) (frequencyHistoryRef s)
          @ [\<lparr>freq = 0.055 * f, timestamp = now\<rparr>]"
    using assms by (simp add: history_processEstimate sm)
  have "smoothedFrequencyRef (processEstimate c f now s) = 0.055 * f"
    using assms by (simp add: smoothed_processEstimate sm)
  moreover have "4.4 \<le> 0.055 * f" "0.055 * f \<le> 11" using assms(1,2) by simp_all
  moreover have "frequencyHistoryRef (processEstimate c f now s) \<noteq> []" unfolding h by simp
  moreover have "last (frequencyHistoryRef (processEstimate c f now s))
           = \<lparr>freq = 0.055 * f, timestamp = now\<rparr>" unfolding h by simp
  moreover have "averageFrequency (processEstimate c f now s)
           = foldl (\<lambda>sum r. sum + freq r) 0 (frequencyHistoryRef (processEstimate c f now s))
             / real (length (frequencyHistoryRef (processEstimate c f now s)))"
    unfolding average_processEstimate Let_def h by simp
  moreover have "smoothedFrequencyRef (startListening c granted s0) = 0"
    by (simp add: startListening_def Let_def)
  moreover have "smoothedFrequencyRef (stopListening s0) = 0" by (simp add: stopListening_def)
  moreover have "smoothedFrequencyRef (freezeCallback s0) = 0" by (simp add: freezeCallback_def)
  ultimately show ?thesis by simp
qed

text \<open>The theorem at 100 Hz on a freshly started session.\<close>

theorem first_estimate_after_reset_witness:
  "(80::real) \<le> 100 \<and> (100::real) \<le> 200 \<and>
   smoothedFrequencyRef (startListening False True initialSession) = 0 \<and>
   smoothedFrequencyRef (processEstimate False 100 0 (startListening False True initialSession)) = 5.5 \<and>
   frequencyHistoryRef (processEstimate False 100 0 (startListening False True initialSession))
     = [\<lparr>freq = 5.5, timestamp = 0\<rparr>] \<and>
   averageFrequency (processEstimate False 100 0 (startListening False True initialSession)) = 5.5"
proof -
  let ?s = "startListening False True initialSession"
  have z: "smoothedFrequencyRef ?s = 0" by (simp add: startListening_def Let_def)
  have h: "frequencyHistoryRef (processEstimate False 100 0 ?s) = [\<lparr>freq = 5.5, timestamp = 0\<rparr>]"
    by (simp add: history_processEstimate startListening_def Let_def initialSession_def smooth_def
        SMOOTHING_ALPHA_def)
  from first_estimate_after_reset [of 100 ?s False 0, OF _ _ z]
  have "smoothedFrequencyRef (processEstimate False 100 0 ?s) = 5.5"
    and "averageFrequency (processEstimate False 100 0 ?s)
           = foldl (\<lambda>sum r. sum + freq r) 0 (frequencyHistoryRef (processEstimate False 100 0 ?s))
             / real (length (frequencyHistoryRef (processEstimate False 100 0 ?s)))"
    by simp_all
  then show ?thesis using z h by simp
qed


lemma history_fresh:
  "\<forall>r\<in>set (frequencyHistoryRef (processEstimate c f now s)). now - timestamp r < 3000"
  by (simp add: history_processEstimate)

lemma continuous_sound_keeps:
  assumes "r \<in> set (frequencyHistoryRef s)" and "timestamp r = 0"
    and "\<forall>(f, t)\<in>set mid. 80 \<le> f \<and> f \<le> 200 \<and> 0 \<le> t \<and> t \<le> 2900"
  shows "r \<in> set (frequencyHistoryRef (foldl (\<lambda>s (f, t). processEstimate c f t s) s mid))"
  using assms
proof (induction mid arbitrary: s)
  case Nil
  then show ?case by simp
next
  case (Cons a mid)
  obtain f t where a: "a = (f, t)" by (cases a)
  have b: "80 \<le> f \<and> f \<le> 200" and t: "t \<le> 2900" using Cons.prems(3) a by simp_all
  have "r \<in> set (frequencyHistoryRef (processEstimate c f t s))"
    using Cons.prems(1,2) t by (simp add: history_in_band [OF b])
  moreover have "\<forall>(f, t)\<in>set mid. 80 \<le> f \<and> f \<le> 200 \<and> 0 \<le> t \<and> t \<le> 2900"
    using Cons.prems(3) by simp
  ultimately show ?case using Cons.IH Cons.prems(2) by (simp add: a)
qed

text \<open>
  Claim C6. After every tick at time \<open>now\<close>, every reading that remains in the history
  satisfies \<open>now - timestamp < 3000\<close>; this holds for lines 43 to 93 on any estimate and for
  the whole callback whenever it returns. In the scenario with a valid reading at the time
  0, any valid readings at times up to 2900, a valid reading at 2900 and ticks at 2999 and
  3001, the readings of 0 and 2900 are both present after the tick at 2999, and after the
  tick at 3001 no reading of time 0 is left while the one of 2900 still is.
\<close>

theorem history_window:
  "(\<forall>r\<in>set (frequencyHistoryRef (processEstimate c f now s)). now - timestamp r < 3000) \<and>
   (audioReady s \<and> processAudio c buffer sampleRate now s = Inr s' \<longrightarrow>
     (\<forall>r\<in>set (frequencyHistoryRef s'). now - timestamp r < 3000)) \<and>
   (80 \<le> f0 \<and> f0 \<le> 200 \<and> 80 \<le> f1 \<and> f1 \<le> 200 \<and>
    (\<forall>(f, t)\<in>set mid. 80 \<le> f \<and> f \<le> 200 \<and> 0 \<le> t \<and> t \<le> 2900) \<longrightarrow>
     (let s1 = processEstimate c f0 0 s;
          sm = foldl (\<lambda>s (f, t). processEstimate c f t s) s1 mid;
          s2 = processEstimate c f1 2900 sm;
          s3 = processEstimate c f2 2999 s2;
          s4 = processEstimate c f3 3001 s3;
          r0 = \<lparr>freq = smoothedFrequencyRef s1, timestamp = 0\<rparr>;
          r1 = \<lparr>freq = smoothedFrequencyRef s2, timestamp = 2900\<rparr>
      in r0 \<in> set (frequencyHistoryRef s3) \<and> r1 \<in> set (frequencyHistoryRef s3) \<and>
         (\<forall>r\<in>set (frequencyHistoryRef s4). timestamp r \<noteq> 0) \<and>
         r1 \<in> set (frequencyHistoryRef s4)))"
proof (intro conjI impI)
  show "\<forall>r\<in>set (frequencyHistoryRef (processEstimate c f now s)). now - timestamp r < 3000"
    by (rule history_fresh)
next
  assume "audioReady s \<and> processAudio c buffer sampleRate now s = Inr s'"
  then obtain g where "frequencyHistoryRef s' = frequencyHistoryRef (processEstimate c g now s)"
    by (auto simp: processAudio_def split: sum.splits)
  then show "\<forall>r\<in>set (frequencyHistoryRef s'). now - timestamp r < 3000"
    using history_fresh [of c g now s] by simp
next
  assume b: "80 \<le> f0 \<and> f0 \<le> 200 \<and> 80 \<le> f1 \<and> f1 \<le> 200 \<and>
    (\<forall>(f, t)\<in>set mid. 80 \<le> f \<and> f \<le> 200 \<and> 0 \<le> t \<and> t \<le> 2900)"
  let ?s1 = "processEstimate c f0 0 s"
  let ?sm = "foldl (\<lambda>s (f, t). processEstimate c f t s) ?s1 mid"
  let ?s2 = "processEstimate c f1 2900 ?sm"
  let ?s3 = "processEstimate c f2 2999 ?s2"
  let ?s4 = "processEstimate c f3 3001 ?s3"
  let ?r0 = "\<lparr>freq = smoothedFrequencyRef ?s1, timestamp = 0\<rparr>"
  let ?r1 = "\<lparr>freq = smoothedFrequencyRef ?s2, timestamp = 2900\<rparr>"
  have b0: "80 \<le> f0 \<and> f0 \<le> 200" and b1: "80 \<le> f1 \<and> f1 \<le> 200"
    and bm: "\<forall>(f, t)\<in>set mid. 80 \<le> f \<and> f \<le> 200 \<and> 0 \<le> t \<and> t \<le> 2900"
    using b by blast+
  have h1: "?r0 \<in> set (frequencyHistoryRef ?s1)"
    using b0 by (simp add: history_in_band smoothed_processEstimate)
  have hm: "?r0 \<in> set (frequencyHistoryRef ?sm)"
    using h1 bm by (intro continuous_sound_keeps) simp_all
  have h2: "?r0 \<in> set (frequencyHistoryRef ?s2)" "?r1 \<in> set (frequencyHistoryRef ?s2)"
    using hm b1 by (simp_all add: history_in_band [OF b1] smoothed_processEstimate [of c f1])
  have l2: "lastSoundTimestampRef ?s2 = 2900" using b1 by (simp add: lastSound_processEstimate)
  have h3: "?r0 \<in> set (frequencyHistoryRef ?s3)" "?r1 \<in> set (frequencyHistoryRef ?s3)"
    using h2 l2 by (simp_all add: history_processEstimate [of c f2])
  have l3: "lastSoundTimestampRef ?s3 = 2999 \<or> lastSoundTimestampRef ?s3 = 2900"
    using l2 by (simp add: lastSound_processEstimate [of c f2])
  have h4: "?r1 \<in> set (frequencyHistoryRef ?s4)"
    using h3(2) l3 by (auto simp: history_processEstimate [of c f3])
  have n4: "\<forall>r\<in>set (frequencyHistoryRef ?s4). timestamp r \<noteq> 0"
    using history_fresh [of c f3 3001 ?s3] by auto
  show "let s1 = processEstimate c f0 0 s;
          sm = foldl (\<lambda>s (f, t). processEstimate c f t s) s1 mid;
          s2 = processEstimate c f1 2900 sm;
          s3 = processEstimate c f2 2999 s2;
          s4 = processEstimate c f3 3001 s3;
          r0 = \<lparr>freq = smoothedFrequencyRef s1, timestamp = 0\<rparr>;
          r1 = \<lparr>freq = smoothedFrequencyRef s2, timestamp = 2900\<rparr>
      in r0 \<in> set (frequencyHistoryRef s3) \<and> r1 \<in> set (frequencyHistoryRef s3) \<and>
         (\<forall>r\<in>set (frequencyHistoryRef s4). timestamp r \<noteq> 0) \<and>
         r1 \<in> set (frequencyHistoryRef s4)"
    unfolding Let_def using h3 h4 n4 by blast
qed

text \<open>
  The scenario with 100 Hz at the times 0, 1500 and 2900 and silence at 2999 and 3001, on a
  freshly started session.
\<close>

theorem history_window_witness:
  "(80::real) \<le> 100 \<and> (100::real) \<le> 200 \<and> (0::int) \<le> 1500 \<and> (1500::int) \<le> 2900 \<and>
   (let s1 = processEstimate False 100 0 (startListening False True initialSession);
        sm = processEstimate False 100 1500 s1;
        s2 = processEstimate False 100 2900 sm;
        s3 = processEstimate False 0 2999 s2;
        s4 = processEstimate False 0 3001 s3
    in 0 \<in> timestamp ` set (frequencyHistoryRef s3) \<and>
       2900 \<in> timestamp ` set (frequencyHistoryRef s3) \<and>
       0 \<notin> timestamp ` set (frequencyHistoryRef s4) \<and>
       2900 \<in> timestamp ` set (frequencyHistoryRef s4))"
proof -
  let ?s = "startListening False True initialSession"
  let ?s1 = "processEstimate False 100 0 ?s"
  let ?sm = "processEstimate False 100 1500 ?s1"
  let ?s2 = "processEstimate False 100 2900 ?sm"
  let ?s3 = "processEstimate False 0 2999 ?s2"
  let ?s4 = "processEstimate False 0 3001 ?s3"
  let ?r0 = "\<lparr>freq = smoothedFrequencyRef ?s1, timestamp = 0\<rparr>"
  let ?r1 = "\<lparr>freq = smoothedFrequencyRef ?s2, timestamp = 2900\<rparr>"
  from history_window [where c = False and s = ?s and ?f0.0 = 100 and ?f1.0 = 100
      and ?f2.0 = 0 and ?f3.0 = 0 and mid = "[(100, 1500)]"]
  have m: "?r0 \<in> set (frequencyHistoryRef ?s3)" "?r1 \<in> set (frequencyHistoryRef ?s3)"
      "\<forall>r\<in>set (frequencyHistoryRef ?s4). timestamp r \<noteq> 0"
      "?r1 \<in> set (frequencyHistoryRef ?s4)"
    by (simp_all add: Let_def)
  have "timestamp ?r0 \<in> timestamp ` set (frequencyHistoryRef ?s3)" using m(1) by (rule imageI)
  moreover have "timestamp ?r1 \<in> timestamp ` set (frequencyHistoryRef ?s3)"
    using m(2) by (rule imageI)
  moreover have "timestamp ?r1 \<in> timestamp ` set (frequencyHistoryRef ?s4)"
    using m(4) by (rule imageI)
  moreover have "0 \<notin> timestamp ` set (frequencyHistoryRef ?s4)" using m(3) by auto
  ultimately show ?thesis unfolding Let_def by simp
qed

lemma out_of_band_keeps:
  assumes "\<not> (80 \<le> f \<and> f \<le> 200)"
  shows "lastSoundTimestampRef (processEstimate c f now s) = lastSoundTimestampRef s"
    and "detectedFrequency (processEstimate c f now s) = detectedFrequency s"
    and "smoothedFrequencyRef (processEstimate c f now s) = smoothedFrequencyRef s"
  using assms
  by (auto simp: lastSound_processEstimate detected_processEstimate smoothed_processEstimate)

lemma gap_keeps:
  assumes "\<forall>(f, t)\<in>set gap. \<not> (80 \<le> f \<and> f \<le> 200)"
  shows "lastSoundTimestampRef (foldl (\<lambda>s (f, t). processEstimate c f t s) s gap)
           = lastSoundTimestampRef s \<and>
         detectedFrequency (foldl (\<lambda>s (f, t). processEstimate c f t s) s gap)
           = detectedFrequency s"
  using assms
proof (induction gap arbitrary: s)
  case Nil
  show ?case by simp
next
  case (Cons a gap)
  obtain f t where a: "a = (f, t)" by (cases a)
  have o: "\<not> (80 \<le> f \<and> f \<le> 200)" using Cons.prems a by simp
  have "\<forall>(f, t)\<in>set gap. \<not> (80 \<le> f \<and> f \<le> 200)" using Cons.prems by simp
  from Cons.IH [OF this, of "processEstimate c f t s"] show ?case
    by (simp add: a out_of_band_keeps [OF o])
qed

lemma pause_clears:
  assumes "\<not> (80 \<le> f \<and> f \<le> 200)" and "now - lastSoundTimestampRef s > 500"
  shows "frequencyHistoryRef (processEstimate c f now s) = []"
    and "averageFrequency (processEstimate c f now s) = 0"
proof -
  show h: "frequencyHistoryRef (processEstimate c f now s) = []"
    using assms by (simp add: history_processEstimate)
  show "averageFrequency (processEstimate c f now s) = 0"
    unfolding average_processEstimate Let_def h by simp
qed

text \<open>
  Claim C4. On a freshly started session, after valid readings at the times 0, 200 and 400
  the history holds three entries; after any ticks without a valid reading and then a tick
  without a valid reading at the time 1000, the history is empty and the average is \<open>0\<close>
  (which the display shows as no value), while the instant value is still the positive value
  of the last valid reading.
\<close>

theorem pause_reset:
  assumes "80 \<le> f0 \<and> f0 \<le> 200" and "80 \<le> f1 \<and> f1 \<le> 200" and "80 \<le> f2 \<and> f2 \<le> 200"
    and "\<forall>(f, t)\<in>set gap. \<not> (80 \<le> f \<and> f \<le> 200)"
    and "\<not> (80 \<le> fz \<and> fz \<le> 200)"
  shows "let s3 = processEstimate c f2 400 (processEstimate c f1 200
                    (processEstimate c f0 0 (startListening c True s0)));
             sg = foldl (\<lambda>s (f, t). processEstimate c f t s) s3 gap;
             s' = processEstimate c fz 1000 sg
         in length (frequencyHistoryRef s3) = 3 \<and>
            frequencyHistoryRef s' = [] \<and> averageFrequency s' = 0 \<and>
            detectedFrequency s' = detectedFrequency s3 \<and> 0 < detectedFrequency s3"
proof -
  let ?s = "startListening c True s0"
  let ?s1 = "processEstimate c f0 0 ?s"
  let ?s2 = "processEstimate c f1 200 ?s1"
  let ?s3 = "processEstimate c f2 400 ?s2"
  let ?sg = "foldl (\<lambda>s (f, t). processEstimate c f t s) ?s3 gap"
  let ?s' = "processEstimate c fz 1000 ?sg"
  have h0: "frequencyHistoryRef ?s = []" "smoothedFrequencyRef ?s = 0"
    by (simp_all add: startListening_def Let_def)
  have h1: "length (frequencyHistoryRef ?s1) = 1"
      "\<forall>r\<in>set (frequencyHistoryRef ?s1). timestamp r = 0"
    using assms(1) h0 by (simp_all add: history_processEstimate)
  have h2: "length (frequencyHistoryRef ?s2) = 2"
      "\<forall>r\<in>set (frequencyHistoryRef ?s2). timestamp r = 0 \<or> timestamp r = 200"
    using assms(2) h1 by (auto simp: history_processEstimate [of c f1])
  have f3: "filter (\<lambda>r. 400 - timestamp r < 3000) (frequencyHistoryRef ?s2) = frequencyHistoryRef ?s2"
    using h2(2) by (auto simp: filter_id_conv)
  have "frequencyHistoryRef ?s3
      = filter (\<lambda>r. 400 - timestamp r < 3000) (frequencyHistoryRef ?s2)
          @ [\<lparr>freq = smooth f2 (smoothedFrequencyRef ?s2), timestamp = 400\<rparr>]"
    using assms(3) by (rule history_in_band)
  then have h3: "length (frequencyHistoryRef ?s3) = 3"
    unfolding f3 using h2(1) by simp
  have l3: "lastSoundTimestampRef ?s3 = 400"
    using assms(3) by (simp add: lastSound_processEstimate)
  have p1: "0 < smoothedFrequencyRef ?s1"
    using assms(1) h0(2) by (simp add: smoothed_processEstimate smooth_def SMOOTHING_ALPHA_def)
  have p2: "0 < smoothedFrequencyRef ?s2"
    using assms(2) p1 by (simp add: smoothed_processEstimate [of c f1] smooth_def SMOOTHING_ALPHA_def
        add_pos_pos)
  have d3: "0 < detectedFrequency ?s3"
    using assms(3) p2 by (simp add: detected_processEstimate [of c f2] smooth_def SMOOTHING_ALPHA_def
        add_pos_pos)
  have g: "lastSoundTimestampRef ?sg = 400" "detectedFrequency ?sg = detectedFrequency ?s3"
    using gap_keeps [OF assms(4), of c ?s3] l3 by simp_all
  have "1000 - lastSoundTimestampRef ?sg > 500" using g(1) by simp
  from pause_clears [OF assms(5) this]
  have e: "frequencyHistoryRef ?s' = []" "averageFrequency ?s' = 0" by simp_all
  have d: "detectedFrequency ?s' = detectedFrequency ?s3"
    using out_of_band_keeps(2) [OF assms(5)] g(2) by simp
  show ?thesis unfolding Let_def using h3 e d d3 by auto
qed


text \<open>The scenario with 100 Hz three times and silent ticks at 600, 800 and 1000.\<close>

theorem pause_reset_witness:
  "(80::real) \<le> 100 \<and> (100::real) \<le> 200 \<and> \<not> ((80::real) \<le> 0 \<and> (0::real) \<le> 200) \<and>
   (let s3 = processEstimate False 100 400 (processEstimate False 100 200
               (processEstimate False 100 0 (startListening False True initialSession)));
        sg = foldl (\<lambda>s (f, t). processEstimate False f t s) s3 [(0, 600), (0, 800)];
        s' = processEstimate False 0 1000 sg
    in length (frequencyHistoryRef s3) = 3 \<and> frequencyHistoryRef s' = [] \<and>
       averageFrequency s' = 0 \<and> 0 < detectedFrequency s')"
  using pause_reset [of 100 100 100 "[(0, 600), (0, 800)]" 0 False initialSession]
  by (simp add: Let_def)

text \<open>
  The frame loop and the freeze timer. The button's handler starts the loop only from a
  render in which \<open>isListening\<close> is false, with the \<open>processAudio\<close> of that render, and
  line 95 requests the next frame for the same closure. So the test \<open>isListening\<close> of line
  62 is false on every frame, and no step of a session arms the timer.
\<close>

lemma timer_stays_clear:
  assumes "resetStateTimeoutRef s = None" and "animationFrameId s \<noteq> Some True"
  shows "resetStateTimeoutRef (step s e) = None \<and> animationFrameId (step s e) \<noteq> Some True"
proof (cases e)
  case (Click granted)
  then show ?thesis
    using assms
    by (simp add: handleToggleListening_def stopListening_def startListening_def Let_def)
next
  case (Frame buffer sampleRate now)
  show ?thesis
  proof (cases "animationFrameId s")
    case None
    then show ?thesis using assms Frame by simp
  next
    case (Some c)
    then have c: "c = False" using assms(2) by simp
    show ?thesis
      using assms(1) Frame Some c
      by (simp add: processAudio_def processEstimate_def averageStep_def detectionStep_def Let_def
          split: sum.splits)
  qed
next
  case (Timeout now)
  then show ?thesis using assms by simp
next
  case Interval
  then show ?thesis using assms by (simp add: displayInterval_def)
qed

lemma timer_stays_clear_run:
  assumes "resetStateTimeoutRef s = None" and "animationFrameId s \<noteq> Some True"
  shows "resetStateTimeoutRef (run events s) = None \<and> animationFrameId (run events s) \<noteq> Some True"
  using assms unfolding run_def
proof (induction events arbitrary: s)
  case Nil
  then show ?case by simp
next
  case (Cons e events)
  from timer_stays_clear [OF Cons.prems, of e] Cons.IH [of "step s e"] show ?case by simp
qed

lemma detect_tone: "findFundamentalFrequency [1, 0, 0, 1 / 2, 1] 400 = Inr 100"
  by (simp add: findFundamentalFrequency_def edge_eval silent_iff allocFails_def maxPeriod_def)

lemma detect_silence: "findFundamentalFrequency [0] 400 = Inr 0"
  by (simp add: findFundamentalFrequency_def silent_iff)

lemma silent_session_eval:
  "run [Click True, Frame [1, 0, 0, 1 / 2, 1] 400 0, Frame [0] 400 1000, Frame [0] 400 5000,
        Frame [0] 400 6000, Timeout 6000, Interval] initialSession
   = \<lparr>isListening = True, detectedFrequency = 5.5, displayedFrequency = 5.5,
      averageFrequency = 0, audioReady = True, animationFrameId = Some False,
      smoothedFrequencyRef = 5.5, frequencyHistoryRef = [], lastSoundTimestampRef = 0,
      resetStateTimeoutRef = None\<rparr>"
  by (simp add: run_def initialSession_def handleToggleListening_def startListening_def Let_def
      processAudio_def detect_tone detect_silence processEstimate_def detectionStep_def
      averageStep_def smooth_def SMOOTHING_ALPHA_def PAUSE_THRESHOLD_MS_def displayInterval_def)

text \<open>
  Claim C5 fails on the code. In every run from the initial state the freeze timer is never
  armed, so its callback never runs and nothing is ever forced to \<open>0\<close> by silence. In
  particular: after a click (microphone granted), one frame detected at 100 Hz at
  the time 0, silent frames at 1000, 5000 and 6000, the timer service at 6000 and a tick of
  the display interval, the instant value, the displayed value and the smoother state are
  all still 5.5, not 0.
\<close>

theorem freeze_timer_never_armed:
  "resetStateTimeoutRef (run events initialSession) = None \<and>
   step (run events initialSession) (Timeout now) = run events initialSession \<and>
   run [Click True, Frame [1, 0, 0, 1 / 2, 1] 400 0, Frame [0] 400 1000, Frame [0] 400 5000,
        Frame [0] 400 6000, Timeout 6000, Interval] initialSession
   = \<lparr>isListening = True, detectedFrequency = 5.5, displayedFrequency = 5.5,
      averageFrequency = 0, audioReady = True, animationFrameId = Some False,
      smoothedFrequencyRef = 5.5, frequencyHistoryRef = [], lastSoundTimestampRef = 0,
      resetStateTimeoutRef = None\<rparr>"
proof (intro conjI)
  show n: "resetStateTimeoutRef (run events initialSession) = None"
    using timer_stays_clear_run [of initialSession events] by (simp add: initialSession_def)
  show "step (run events initialSession) (Timeout now) = run events initialSession"
    using n by simp
  show "run [Click True, Frame [1, 0, 0, 1 / 2, 1] 400 0, Frame [0] 400 1000, Frame [0] 400 5000,
        Frame [0] 400 6000, Timeout 6000, Interval] initialSession
   = \<lparr>isListening = True, detectedFrequency = 5.5, displayedFrequency = 5.5,
      averageFrequency = 0, audioReady = True, animationFrameId = Some False,
      smoothedFrequencyRef = 5.5, frequencyHistoryRef = [], lastSoundTimestampRef = 0,
      resetStateTimeoutRef = None\<rparr>"
    by (rule silent_session_eval)
qed

text \<open>
  What lines 45 to 70 and the timer do in a closure that has captured a true \<open>isListening\<close>:
  a tick without a valid estimate arms the timer for 5000 ms when none is pending and keeps
  a pending one; a valid estimate clears it; the callback does not run before the timer is
  due and zeroes the three values when it is.
\<close>

lemma freeze_timer_in_listening_closure:
  assumes "\<not> (80 \<le> f \<and> f \<le> 200)" and "80 \<le> g \<and> g \<le> 200"
  shows "resetStateTimeoutRef s = None \<Longrightarrow>
           resetStateTimeoutRef (processEstimate True f now s) = Some (now + 5000)"
    and "resetStateTimeoutRef s = Some due \<Longrightarrow>
           resetStateTimeoutRef (processEstimate True f now s) = Some due"
    and "resetStateTimeoutRef (processEstimate c g now s) = None"
    and "resetStateTimeoutRef s = Some due \<Longrightarrow> t < due \<Longrightarrow> step s (Timeout t) = s"
    and "resetStateTimeoutRef s = Some due \<Longrightarrow> due \<le> t \<Longrightarrow>
           step s (Timeout t) = s\<lparr>detectedFrequency := 0, displayedFrequency := 0,
             smoothedFrequencyRef := 0, resetStateTimeoutRef := None\<rparr>"
  using assms
  by (auto simp: processEstimate_def averageStep_def detectionStep_def Let_def
      FREEZE_ON_SILENCE_MS_def freezeCallback_def)

end
